theory Spec2Isabelle
  imports Complex_Main
begin

section \<open>Python values and strings\<close>

text \<open>
  A Python \<open>str\<close> is a sequence of Unicode code points, so a string is a list of
  integers; \<open>ustr\<close> turns an ASCII literal into that form.

  A Python \<open>float\<close> is an IEEE double. \<open>Fin q\<close> stands for the double nearest to
  the rational \<open>q\<close> (the value \<open>float\<close> gives for a decimal literal denoting \<open>q\<close>), so
  equal model values are equal doubles; binary rounding itself is not modelled.
  The overflow of \<open>float\<close> at the top of the double range is modelled: see
  \<open>float_max_bound\<close>.

  \<open>PObj s\<close> is any other, non-missing object whose \<open>str()\<close> is \<open>s\<close> (a timestamp,
  a numpy integer scalar). \<open>PNone\<close> is \<open>None\<close>.
\<close>

type_synonym ustring = "int list"

definition ustr :: "string \<Rightarrow> ustring" where
  "ustr s = map of_char s"

datatype pyfloat = Fin rat | PosInf | NegInf | NaN

datatype pyval =
    PNone
  | PBool bool
  | PInt int
  | PFloat pyfloat
  | PStr ustring
  | PObj ustring

text \<open>
  The exceptions that can leave the functions: \<open>OverflowError\<close> from \<open>float\<close>, and
  \<open>PandasError\<close> for the exception pandas raises on a frame whose labels repeat
  (an \<open>AttributeError\<close> or a \<open>TypeError\<close>, depending on the test that meets it).
\<close>

datatype error = OverflowError | PandasError

subsection \<open>String methods\<close>

text \<open>\<open>str.isspace\<close> for one code point: the code points CPython treats as whitespace.\<close>

definition isspace :: "int \<Rightarrow> bool" where
  "isspace c \<longleftrightarrow>
     (0x09 \<le> c \<and> c \<le> 0x0D) \<or> (0x1C \<le> c \<and> c \<le> 0x20) \<or> c = 0x85 \<or> c = 0xA0 \<or>
     c = 0x1680 \<or> (0x2000 \<le> c \<and> c \<le> 0x200A) \<or> c = 0x2028 \<or> c = 0x2029 \<or>
     c = 0x202F \<or> c = 0x205F \<or> c = 0x3000"

text \<open>\<open>s.strip()\<close>\<close>

definition strip :: "ustring \<Rightarrow> ustring" where
  "strip s = rev (dropWhile isspace (rev (dropWhile isspace s)))"

text \<open>
  \<open>s.lower()\<close>, modelled on ASCII and the Latin-1 Supplement: \<open>A\<close>..\<open>Z\<close> and
  U+00C0..U+00DE (without the multiplication sign U+00D7) move up by 32, every other
  code point is kept.
\<close>

definition lower_char :: "int \<Rightarrow> int" where
  "lower_char c =
     (if (0x41 \<le> c \<and> c \<le> 0x5A) \<or> (0xC0 \<le> c \<and> c \<le> 0xDE \<and> c \<noteq> 0xD7) then c + 0x20 else c)"

definition lower :: "ustring \<Rightarrow> ustring" where
  "lower s = map lower_char s"

text \<open>\<open>s.replace(old, new)\<close> for a pattern \<open>old\<close> of one code point.\<close>

definition replace_char :: "int \<Rightarrow> ustring \<Rightarrow> ustring \<Rightarrow> ustring" where
  "replace_char old new s = concat (map (\<lambda>c. if c = old then new else [c]) s)"

text \<open>\<open>s.startswith(c)\<close> and \<open>s.endswith(c)\<close> for a pattern of one code point.\<close>

definition startswith :: "int \<Rightarrow> ustring \<Rightarrow> bool" where
  "startswith c s = (case s of [] \<Rightarrow> False | x # _ \<Rightarrow> x = c)"

definition endswith :: "int \<Rightarrow> ustring \<Rightarrow> bool" where
  "endswith c s = startswith c (rev s)"

text \<open>\<open>s.rfind(c)\<close>: the highest index of \<open>c\<close>, or \<open>-1\<close>.\<close>

fun rfind_from :: "int \<Rightarrow> ustring \<Rightarrow> int \<Rightarrow> int \<Rightarrow> int" where
  "rfind_from c [] i best = best"
| "rfind_from c (x # xs) i best = rfind_from c xs (i + 1) (if x = c then i else best)"

definition rfind :: "int \<Rightarrow> ustring \<Rightarrow> int" where
  "rfind c s = rfind_from c s 0 (-1)"

text \<open>\<open>s.split(sep)\<close> for a separator of one code point; the result is never empty.\<close>

fun split :: "int \<Rightarrow> ustring \<Rightarrow> ustring list" where
  "split sep [] = [[]]"
| "split sep (x # xs) =
     (if x = sep then [] # split sep xs
      else (case split sep xs of [] \<Rightarrow> [[x]] | p # ps \<Rightarrow> (x # p) # ps))"

text \<open>\<open>sub in s\<close>: \<open>sub\<close> occurs in \<open>s\<close> as a contiguous substring.\<close>

fun is_prefix :: "ustring \<Rightarrow> ustring \<Rightarrow> bool" where
  "is_prefix [] s = True"
| "is_prefix (x # xs) [] = False"
| "is_prefix (x # xs) (y # ys) = (x = y \<and> is_prefix xs ys)"

fun contains :: "ustring \<Rightarrow> ustring \<Rightarrow> bool" where
  "contains sub [] = (sub = [])"
| "contains sub (y # ys) = (is_prefix sub (y # ys) \<or> contains sub ys)"

subsection \<open>Unicode normalisation\<close>

text \<open>
  \<open>unicodedata\<close> is modelled on the code points below U+0100, the currency signs of
  \<open>_CURRENCY_SYMBOLS\<close>, the trade mark sign U+2122, and the code points their
  decompositions produce; \<open>modelled\<close> is that set. Outside it the tables keep a
  code point as it is, which is not claimed to agree with Unicode.

  \<open>compat_table\<close> lists the compatibility decompositions, \<open>canon_table\<close> the
  canonical ones (a base letter and one combining mark).
\<close>

definition compat_table :: "(int \<times> ustring) list" where
  "compat_table =
    [(0xA0, [0x20]), (0xA8, [0x20, 0x308]), (0xAA, [0x61]), (0xAF, [0x20, 0x304]),
     (0xB2, [0x32]), (0xB3, [0x33]), (0xB4, [0x20, 0x301]), (0xB5, [0x3BC]),
     (0xB8, [0x20, 0x327]), (0xB9, [0x31]), (0xBA, [0x6F]),
     (0xBC, [0x31, 0x2044, 0x34]), (0xBD, [0x31, 0x2044, 0x32]), (0xBE, [0x33, 0x2044, 0x34]),
     (0x2122, [0x54, 0x4D])]"

definition canon_table :: "(int \<times> ustring) list" where
  "canon_table =
    [(0xC0, [0x41, 0x300]), (0xC1, [0x41, 0x301]), (0xC2, [0x41, 0x302]), (0xC3, [0x41, 0x303]),
     (0xC4, [0x41, 0x308]), (0xC5, [0x41, 0x30A]), (0xC7, [0x43, 0x327]),
     (0xC8, [0x45, 0x300]), (0xC9, [0x45, 0x301]), (0xCA, [0x45, 0x302]), (0xCB, [0x45, 0x308]),
     (0xCC, [0x49, 0x300]), (0xCD, [0x49, 0x301]), (0xCE, [0x49, 0x302]), (0xCF, [0x49, 0x308]),
     (0xD1, [0x4E, 0x303]),
     (0xD2, [0x4F, 0x300]), (0xD3, [0x4F, 0x301]), (0xD4, [0x4F, 0x302]), (0xD5, [0x4F, 0x303]),
     (0xD6, [0x4F, 0x308]),
     (0xD9, [0x55, 0x300]), (0xDA, [0x55, 0x301]), (0xDB, [0x55, 0x302]), (0xDC, [0x55, 0x308]),
     (0xDD, [0x59, 0x301]),
     (0xE0, [0x61, 0x300]), (0xE1, [0x61, 0x301]), (0xE2, [0x61, 0x302]), (0xE3, [0x61, 0x303]),
     (0xE4, [0x61, 0x308]), (0xE5, [0x61, 0x30A]), (0xE7, [0x63, 0x327]),
     (0xE8, [0x65, 0x300]), (0xE9, [0x65, 0x301]), (0xEA, [0x65, 0x302]), (0xEB, [0x65, 0x308]),
     (0xEC, [0x69, 0x300]), (0xED, [0x69, 0x301]), (0xEE, [0x69, 0x302]), (0xEF, [0x69, 0x308]),
     (0xF1, [0x6E, 0x303]),
     (0xF2, [0x6F, 0x300]), (0xF3, [0x6F, 0x301]), (0xF4, [0x6F, 0x302]), (0xF5, [0x6F, 0x303]),
     (0xF6, [0x6F, 0x308]),
     (0xF9, [0x75, 0x300]), (0xFA, [0x75, 0x301]), (0xFB, [0x75, 0x302]), (0xFC, [0x75, 0x308]),
     (0xFD, [0x79, 0x301]), (0xFF, [0x79, 0x308])]"

definition modelled :: "int \<Rightarrow> bool" where
  "modelled c \<longleftrightarrow> (0 \<le> c \<and> c < 0x100) \<or> c \<in> {0x3BC, 0x2044, 0x20AC, 0x20BD, 0x20B1, 0x20B9, 0x2122}"

text \<open>
  \<open>unicodedata.normalize("NFKD", s)\<close>: every code point is replaced by its full
  decomposition. On modelled strings every decomposition starts with a base
  character, so no two combining marks meet and nothing is reordered.
\<close>

definition nfkd_char :: "int \<Rightarrow> ustring" where
  "nfkd_char c =
     (case map_of compat_table c of Some d \<Rightarrow> d
      | None \<Rightarrow> (case map_of canon_table c of Some d \<Rightarrow> d | None \<Rightarrow> [c]))"

definition nfkd :: "ustring \<Rightarrow> ustring" where
  "nfkd s = concat (map nfkd_char s)"

text \<open>
  \<open>unicodedata.normalize("NFKC", s)\<close>: compatibility decomposition followed by
  canonical composition; on modelled strings the letters of \<open>canon_table\<close> are
  composed back to themselves, and only the compatibility decompositions show.
\<close>

definition nfkc_char :: "int \<Rightarrow> ustring" where
  "nfkc_char c = (case map_of compat_table c of Some d \<Rightarrow> d | None \<Rightarrow> [c])"

definition nfkc :: "ustring \<Rightarrow> ustring" where
  "nfkc s = concat (map nfkc_char s)"

text \<open>
  \<open>unicodedata.combining(c)\<close>: the canonical combining class, non-zero for the
  combining marks that the tables produce.
\<close>

definition combining :: "int \<Rightarrow> int" where
  "combining c =
     (if c \<in> {0x300, 0x301, 0x302, 0x303, 0x304, 0x308, 0x30A} then 230
      else if c = 0x327 then 202 else 0)"

section \<open>Text normalizer\<close>

text \<open>\<open>normalize_column_name\<close>: a label that is not a \<open>str\<close> gives the empty string.\<close>

definition normalize_column_name :: "pyval \<Rightarrow> ustring" where
  "normalize_column_name name =
     (case name of
        PStr s \<Rightarrow> (let normalized = nfkd (lower (strip s))
                   in filter (\<lambda>char. combining char = 0) normalized)
      | _ \<Rightarrow> [])"

section \<open>Builtin conversions\<close>

text \<open>
  \<open>str(n)\<close> for an \<open>int\<close>: the decimal digits, with a minus sign for a negative
  number. \<open>str(b)\<close> for a \<open>bool\<close> is \<open>True\<close> or \<open>False\<close>. \<open>str(x)\<close> for a \<open>float\<close> is
  the shortest decimal that reads back as the same double; it depends on binary
  rounding, so the functions that call it take it as the parameter \<open>fstr\<close>.
\<close>

function str_digits :: "int \<Rightarrow> ustring" where
  "str_digits n = (if n < 10 then [0x30 + n] else str_digits (n div 10) @ [0x30 + n mod 10])"
  by pat_completeness auto
termination
  by (relation "measure nat") auto

definition str_of_int :: "int \<Rightarrow> ustring" where
  "str_of_int n = (if n < 0 then 0x2D # str_digits (- n) else str_digits n)"

fun py_str :: "(pyfloat \<Rightarrow> ustring) \<Rightarrow> pyval \<Rightarrow> ustring" where
  "py_str fstr PNone = ustr ''None''"
| "py_str fstr (PBool b) = (if b then ustr ''True'' else ustr ''False'')"
| "py_str fstr (PInt n) = str_of_int n"
| "py_str fstr (PFloat f) = fstr f"
| "py_str fstr (PStr s) = s"
| "py_str fstr (PObj s) = s"

text \<open>
  \<open>float(s)\<close> for a \<open>str\<close>. At both ends it skips the whitespace of C (U+0009 to
  U+000D and the space) and the whitespace beyond ASCII, which it first turns into
  spaces; unlike \<open>str.strip\<close> it does not skip U+001C to U+001F. Then, after an
  optional sign, the text is \<open>inf\<close>, \<open>infinity\<close> or \<open>nan\<close> in any letter case, or
  \<^verbatim>\<open>
  digitpart   ::= digit (["_"] digit)*
  number      ::= [digitpart] "." digitpart | digitpart ["."]
  floatnumber ::= number [("e" | "E") ["+" | "-"] digitpart]
  \<close>
  Anything else raises \<open>ValueError\<close>, which is the result \<open>None\<close>. The digits modelled
  are \<open>0\<close>..\<open>9\<close>; Python also reads the decimal digits of other scripts.
\<close>

definition is_digit :: "int \<Rightarrow> bool" where
  "is_digit c \<longleftrightarrow> 0x30 \<le> c \<and> c \<le> 0x39"

fun digitpart :: "ustring \<Rightarrow> bool" where
  "digitpart [] = False"
| "digitpart [c] = is_digit c"
| "digitpart (c # d # s) =
     (is_digit c \<and> (if d = 0x5F then s \<noteq> [] \<and> digitpart s else digitpart (d # s)))"

definition digits_value :: "ustring \<Rightarrow> int" where
  "digits_value s = foldl (\<lambda>acc c. 10 * acc + (c - 0x30)) 0 (filter is_digit s)"

definition split_sign :: "ustring \<Rightarrow> bool \<times> ustring" where
  "split_sign s =
     (case s of
        [] \<Rightarrow> (False, s)
      | c # r \<Rightarrow> if c = 0x2D then (True, r) else if c = 0x2B then (False, r) else (False, s))"

definition parse_exponent :: "ustring \<Rightarrow> int option" where
  "parse_exponent s =
     (let (neg, body) = split_sign s
      in if digitpart body then Some (if neg then - digits_value body else digits_value body)
         else None)"

definition decimal_value :: "ustring \<Rightarrow> ustring \<Rightarrow> int \<Rightarrow> rat" where
  "decimal_value ip fp e =
     (let m = of_int (digits_value (ip @ fp));
          k = e - int (length (filter is_digit fp))
      in if 0 \<le> k then m * 10 ^ nat k else m / 10 ^ nat (- k))"

definition parse_number :: "ustring \<Rightarrow> rat option" where
  "parse_number s =
     (let mant = takeWhile (\<lambda>c. c \<noteq> 0x65 \<and> c \<noteq> 0x45) s;
          rest = dropWhile (\<lambda>c. c \<noteq> 0x65 \<and> c \<noteq> 0x45) s;
          ip = takeWhile (\<lambda>c. c \<noteq> 0x2E) mant;
          frac = dropWhile (\<lambda>c. c \<noteq> 0x2E) mant;
          fp = tl frac
      in if (if frac = [] then digitpart ip
             else (ip = [] \<or> digitpart ip) \<and> (fp = [] \<or> digitpart fp) \<and> (ip \<noteq> [] \<or> fp \<noteq> []))
         then (case rest of
                 [] \<Rightarrow> Some (decimal_value ip fp 0)
               | _ # ex \<Rightarrow> map_option (decimal_value ip fp) (parse_exponent ex))
         else None)"

text \<open>
  A decimal whose nearest double would lie beyond the largest finite double reads
  as an infinity: that is every value of magnitude at least \<open>2^1024 - 2^970\<close>.
  \<open>float(n)\<close> for an \<open>int\<close> of that magnitude raises \<open>OverflowError\<close> instead.
\<close>

definition float_max_bound :: "int" where
  "float_max_bound = 2 ^ 1024 - 2 ^ 970"

definition round_overflow :: "rat \<Rightarrow> pyfloat" where
  "round_overflow q =
     (if of_int float_max_bound \<le> q then PosInf
      else if q \<le> - of_int float_max_bound then NegInf
      else Fin q)"

definition ascii_lower :: "int \<Rightarrow> int" where
  "ascii_lower c = (if 0x41 \<le> c \<and> c \<le> 0x5A then c + 0x20 else c)"

definition float_space :: "int \<Rightarrow> bool" where
  "float_space c \<longleftrightarrow> (0x09 \<le> c \<and> c \<le> 0x0D) \<or> c = 0x20 \<or> (0x7F \<le> c \<and> isspace c)"

definition float_strip :: "ustring \<Rightarrow> ustring" where
  "float_strip s = rev (dropWhile float_space (rev (dropWhile float_space s)))"

definition py_float_str :: "ustring \<Rightarrow> pyfloat option" where
  "py_float_str s =
     (let (neg, body) = split_sign (float_strip s);
          low = map ascii_lower body
      in if low = ustr ''inf'' \<or> low = ustr ''infinity'' then Some (if neg then NegInf else PosInf)
         else if low = ustr ''nan'' then Some NaN
         else map_option (\<lambda>q. round_overflow (if neg then - q else q)) (parse_number body))"

definition py_float_int :: "int \<Rightarrow> error + pyfloat" where
  "py_float_int n =
     (if float_max_bound \<le> \<bar>n\<bar> then Inl OverflowError else Inr (Fin (of_int n)))"

text \<open>Unary minus on a \<open>float\<close>.\<close>

fun fneg :: "pyfloat \<Rightarrow> pyfloat" where
  "fneg (Fin q) = Fin (- q)"
| "fneg PosInf = NegInf"
| "fneg NegInf = PosInf"
| "fneg NaN = NaN"

section \<open>Numeric parser\<close>

definition currency_symbols :: "int list" where
  "currency_symbols = [0x24, 0x20AC, 0xA3, 0xA5, 0x20BD, 0x20B1, 0x20B9]"

text \<open>\<open>_strip_currency_symbols\<close>: the loop over \<open>_CURRENCY_SYMBOLS\<close>.\<close>

definition strip_currency_symbols :: "ustring \<Rightarrow> ustring" where
  "strip_currency_symbols v = foldl (\<lambda>cleaned symbol. replace_char symbol [] cleaned) v currency_symbols"

text \<open>\<open>_coerce_to_string\<close>\<close>

definition coerce_to_string :: "(pyfloat \<Rightarrow> ustring) \<Rightarrow> pyval \<Rightarrow> ustring option" where
  "coerce_to_string fstr v =
     (case v of
        PNone \<Rightarrow> None
      | PInt n \<Rightarrow> Some (py_str fstr v)
      | PFloat f \<Rightarrow> if f = NaN then None else Some (py_str fstr v)
      | _ \<Rightarrow> (let text = strip (py_str fstr v) in if text = [] then None else Some text))"

text \<open>
  \<open>_parse_numeric_text\<close>, lines 50 to 64: the three sign conventions are tested one
  after the other on what the previous one left, then a leading plus sign is
  dropped. The result is the remaining text and \<open>is_negative\<close>.
\<close>

definition strip_signs :: "ustring \<Rightarrow> ustring \<times> bool" where
  "strip_signs cleaned0 =
     (let (cleaned1, neg1) =
            (if startswith 0x28 cleaned0 \<and> endswith 0x29 cleaned0
             then (butlast (tl cleaned0), True) else (cleaned0, False));
          (cleaned2, neg2) =
            (if endswith 0x2D cleaned1 then (butlast cleaned1, True) else (cleaned1, neg1));
          (cleaned3, neg3) =
            (if startswith 0x2D cleaned2 then (tl cleaned2, True) else (cleaned2, neg2));
          cleaned4 = (if startswith 0x2B cleaned3 then tl cleaned3 else cleaned3)
      in (cleaned4, neg3))"

text \<open>Lines 68 to 79: which of \<open>.\<close> and \<open>,\<close> is the decimal point.\<close>

definition resolve_separators :: "ustring \<Rightarrow> ustring" where
  "resolve_separators cleaned =
     (if 0x2E \<in> set cleaned \<and> 0x2C \<in> set cleaned then
        (let last_dot = rfind 0x2E cleaned; last_comma = rfind 0x2C cleaned
         in if last_dot > last_comma then replace_char 0x2C [] cleaned
            else replace_char 0x2C [0x2E] (replace_char 0x2E [] cleaned))
      else if (if count_list cleaned 0x2C = 1 then length (split 0x2C cleaned ! 1) \<le> 2 else False)
        then replace_char 0x2C [0x2E] cleaned
      else replace_char 0x2C [] cleaned)"

text \<open>Lines 81 to 83: only the last of several points stays.\<close>

definition collapse_dots :: "ustring \<Rightarrow> ustring" where
  "collapse_dots cleaned =
     (if count_list cleaned 0x2E > 1
      then (let parts = split 0x2E cleaned in concat (butlast parts) @ [0x2E] @ last parts)
      else cleaned)"

text \<open>\<open>_parse_numeric_text\<close>: the pair of the cleaned text, or \<open>None\<close>, and \<open>is_negative\<close>.\<close>

definition parse_numeric_text :: "(pyfloat \<Rightarrow> ustring) \<Rightarrow> pyval \<Rightarrow> ustring option \<times> bool" where
  "parse_numeric_text fstr text_value =
     (case coerce_to_string fstr text_value of
        None \<Rightarrow> (None, False)
      | Some text \<Rightarrow>
          (let cleaned = nfkc text;
               cleaned = replace_char 0xA0 [] cleaned;
               cleaned = strip_currency_symbols cleaned;
               (cleaned, is_negative) = strip_signs cleaned;
               cleaned = replace_char 0x20 [] cleaned;
               cleaned = resolve_separators cleaned;
               cleaned = collapse_dots cleaned;
               cleaned = replace_char 0x27 [] cleaned
           in (case py_float_str cleaned of
                 None \<Rightarrow> (None, False)
               | Some _ \<Rightarrow> (Some cleaned, is_negative))))"

text \<open>
  Two stages of \<open>_parse_numeric_text\<close> by name: \<open>before_signs\<close> is the text after lines
  46 to 48, on which the sign tests run, and \<open>before_separators\<close> is the text after
  lines 46 to 66, which reaches the test of line 68, with \<open>is_negative\<close>.
\<close>

definition before_signs :: "ustring \<Rightarrow> ustring" where
  "before_signs text = strip_currency_symbols (replace_char 0xA0 [] (nfkc text))"

definition before_separators :: "ustring \<Rightarrow> ustring \<times> bool" where
  "before_separators text =
     (let (cleaned, is_negative) = strip_signs (before_signs text)
      in (replace_char 0x20 [] cleaned, is_negative))"

definition is_numeric_like :: "(pyfloat \<Rightarrow> ustring) \<Rightarrow> pyval \<Rightarrow> bool" where
  "is_numeric_like fstr text_value =
     (case parse_numeric_text fstr text_value of (cleaned, _) \<Rightarrow> cleaned \<noteq> None)"

text \<open>
  \<open>convert_numeric_text\<close>: \<open>Inr None\<close> is the result \<open>pd.NA\<close>, and \<open>Inl\<close> an exception
  that leaves the function.
\<close>

definition convert_numeric_text :: "(pyfloat \<Rightarrow> ustring) \<Rightarrow> pyval \<Rightarrow> error + pyfloat option" where
  "convert_numeric_text fstr text_value =
     (case text_value of
        PNone \<Rightarrow> Inr None
      | PInt n \<Rightarrow> (case py_float_int n of Inl e \<Rightarrow> Inl e | Inr r \<Rightarrow> Inr (Some r))
      | PFloat f \<Rightarrow> if f = NaN then Inr None else Inr (Some f)
      | _ \<Rightarrow>
          (case parse_numeric_text fstr text_value of
             (None, _) \<Rightarrow> Inr None
           | (Some cleaned, is_negative) \<Rightarrow>
               (case py_float_str cleaned of
                  None \<Rightarrow> Inr None
                | Some result \<Rightarrow> Inr (Some (if is_negative then fneg result else result)))))"

section \<open>Column classifier\<close>

definition id_keywords :: "ustring list" where
  "id_keywords = [ustr ''id'']"

definition should_force_numeric :: "ustring \<Rightarrow> bool" where
  "should_force_numeric norm_column_name =
     list_ex (\<lambda>keyword. contains keyword norm_column_name) id_keywords"

text \<open>
  \<open>find_columns_with_keywords\<close>: the loop over \<open>columns\<close> with the list \<open>matches\<close> it
  appends to.
\<close>

fun find_columns_loop :: "ustring list \<Rightarrow> pyval list \<Rightarrow> pyval list \<Rightarrow> pyval list" where
  "find_columns_loop normalized_keywords [] matches = matches"
| "find_columns_loop normalized_keywords (column # rest) matches =
     (let normalized_column = normalize_column_name column
      in find_columns_loop normalized_keywords rest
           (if list_ex (\<lambda>keyword. keyword \<noteq> [] \<and> contains keyword normalized_column)
                 normalized_keywords
            then matches @ [column] else matches))"

definition find_columns_with_keywords :: "pyval list \<Rightarrow> pyval list \<Rightarrow> pyval list" where
  "find_columns_with_keywords columns keywords =
     find_columns_loop (map normalize_column_name keywords) columns []"

text \<open>
  \<open>upload_file\<close> gives a column the currency format when
  \<open>normalize_column_name(col) in money_col_targets\<close>.
\<close>

definition money_col_targets :: "ustring list" where
  "money_col_targets =
    [ustr ''valor de la compra'',
     ustr ''comision mas iva'',
     ustr ''comisi'' @ [0xF3] @ ustr ''n m'' @ [0xE1] @ ustr ''s iva'',
     ustr ''monto neto de operacion'',
     ustr ''monto neto de operaci'' @ [0xF3] @ ustr ''n'',
     ustr ''impuestos cobrados por retenciones iibb'']"

definition is_money_column :: "pyval \<Rightarrow> bool" where
  "is_money_column col = (normalize_column_name col \<in> set money_col_targets)"

section \<open>Table converter\<close>

text \<open>
  A column of a \<open>DataFrame\<close> is its label, its dtype and its cells. The dtype is
  kept as the three tests the code makes of it: \<open>NumericDtype\<close> when
  \<open>is_numeric_dtype\<close> holds, \<open>ObjectDtype\<close> when it is \<open>object\<close>, \<open>StringDtype\<close> when it
  is another dtype for which \<open>is_string_dtype\<close> holds, \<open>OtherDtype\<close> otherwise. A frame
  is the list of its columns in order. The labels of a frame read from a spreadsheet
  are pairwise distinct; where a label repeats, \<open>df[column]\<close> is a \<open>DataFrame\<close> and
  not a \<open>Series\<close>, and the code raises when the loop reaches that label.
\<close>

datatype dtype = NumericDtype | ObjectDtype | StringDtype | OtherDtype

record column =
  label :: pyval
  dtype :: dtype
  cells :: "pyval list"

text \<open>\<open>Series.dropna\<close> drops the missing cells: \<open>None\<close> and the float \<open>nan\<close>.\<close>

definition isna :: "pyval \<Rightarrow> bool" where
  "isna v \<longleftrightarrow> v = PNone \<or> v = PFloat NaN"

definition dropna :: "pyval list \<Rightarrow> pyval list" where
  "dropna vs = filter (\<lambda>v. \<not> isna v) vs"

text \<open>
  \<open>series.map(convert_numeric_text)\<close>: the results cell by cell; an exception in one
  call ends the whole map.
\<close>

fun map_convert :: "(pyfloat \<Rightarrow> ustring) \<Rightarrow> pyval list \<Rightarrow> error + pyfloat option list" where
  "map_convert fstr [] = Inr []"
| "map_convert fstr (v # vs) =
     (case convert_numeric_text fstr v of
        Inl e \<Rightarrow> Inl e
      | Inr r \<Rightarrow> (case map_convert fstr vs of Inl e \<Rightarrow> Inl e | Inr rs \<Rightarrow> Inr (r # rs)))"

text \<open>
  \<open>pd.to_numeric(numeric_series, errors="coerce")\<close> on those results: a float stays,
  \<open>pd.NA\<close> becomes \<open>nan\<close>, the missing value of a float column.
\<close>

definition to_numeric :: "pyfloat option list \<Rightarrow> pyval list" where
  "to_numeric rs = map (\<lambda>r. case r of None \<Rightarrow> PFloat NaN | Some f \<Rightarrow> PFloat f) rs"

text \<open>
  The cleaned display strings of a column:
  \<open>series.dropna().map(_coerce_to_string).dropna()\<close>.
\<close>

definition cleaned_non_null :: "(pyfloat \<Rightarrow> ustring) \<Rightarrow> pyval list \<Rightarrow> ustring list" where
  "cleaned_non_null fstr vs = List.map_filter (coerce_to_string fstr) (dropna vs)"

text \<open>
  The body of the loop of \<open>convert_text_columns_to_numbers\<close> for one column: the
  column afterwards, and whether its label was appended to \<open>converted_columns\<close>.
\<close>

definition convert_column :: "(pyfloat \<Rightarrow> ustring) \<Rightarrow> column \<Rightarrow> error + (column \<times> bool)" where
  "convert_column fstr col =
     (if dtype col = NumericDtype then Inr (col, False)
      else
        (let normalized_name = normalize_column_name (label col);
             force_numeric = should_force_numeric normalized_name
         in if \<not> (force_numeric \<or> dtype col = ObjectDtype \<or> dtype col = StringDtype)
            then Inr (col, False)
            else if dropna (cells col) = [] \<and> \<not> force_numeric then Inr (col, False)
            else if cleaned_non_null fstr (cells col) = [] \<and> \<not> force_numeric then Inr (col, False)
            else if force_numeric \<or>
                    list_all (\<lambda>s. is_numeric_like fstr (PStr s)) (cleaned_non_null fstr (cells col))
            then (case map_convert fstr (cells col) of
                    Inl e \<Rightarrow> Inl e
                  | Inr numeric_series \<Rightarrow>
                      Inr (col\<lparr>dtype := NumericDtype, cells := to_numeric numeric_series\<rparr>, True))
            else Inr (col, False)))"

text \<open>
  The loop: \<open>labels\<close> are the labels of the whole frame, \<open>done\<close> the columns already
  visited, as the frame now holds them, and \<open>converted_columns\<close> the report so far.
  A label that occurs more than once ends the loop with the exception.
\<close>

fun convert_loop ::
  "(pyfloat \<Rightarrow> ustring) \<Rightarrow> pyval list \<Rightarrow> column list \<Rightarrow> column list \<times> pyval list \<Rightarrow>
     error + (column list \<times> pyval list)"
where
  "convert_loop fstr labels [] state = Inr state"
| "convert_loop fstr labels (col # rest) (done, converted_columns) =
     (if 1 < count_list labels (label col) then Inl PandasError
      else
        (case convert_column fstr col of
           Inl e \<Rightarrow> Inl e
         | Inr (col', converted) \<Rightarrow>
             convert_loop fstr labels rest
               (done @ [col'],
                if converted then converted_columns @ [label col] else converted_columns)))"

definition convert_text_columns_to_numbers ::
  "(pyfloat \<Rightarrow> ustring) \<Rightarrow> column list \<Rightarrow> error + (column list \<times> pyval list)" where
  "convert_text_columns_to_numbers fstr df = convert_loop fstr (map label df) df ([], [])"

section \<open>Properties of the string methods\<close>

lemma replace_char_delete: "replace_char c [] s = filter (\<lambda>x. x \<noteq> c) s"
  by (induction s) (auto simp: replace_char_def)

lemma replace_char_single: "replace_char c [d] s = map (\<lambda>x. if x = c then d else x) s"
  by (induction s) (auto simp: replace_char_def)

lemma rfind_from_absent: "c \<notin> set s \<Longrightarrow> rfind_from c s i best = best"
  by (induction s arbitrary: i best) auto

lemma rfind_from_append:
  "rfind_from c (xs @ ys) i best = rfind_from c ys (i + int (length xs)) (rfind_from c xs i best)"
  by (induction xs arbitrary: i best) (auto simp: algebra_simps)

lemma rfind_last: "c \<notin> set post \<Longrightarrow> rfind c (pre @ c # post) = int (length pre)"
  by (simp add: rfind_def rfind_from_append rfind_from_absent)

lemma rfind_from_bound: "best < i \<Longrightarrow> rfind_from c s i best < i + int (length s)"
proof (induction s arbitrary: i best)
  case Nil
  then show ?case by simp
next
  case (Cons a s)
  have "(if a = c then i else best) < i + 1" using Cons.prems by simp
  from Cons.IH [OF this] show ?case by simp
qed

lemma rfind_bound: "rfind c s < int (length s)"
  using rfind_from_bound [of "-1" 0 c s] by (simp add: rfind_def)

lemma rfind_before: "c \<notin> set post \<Longrightarrow> c \<noteq> d \<Longrightarrow> rfind c (pre @ d # post) < int (length pre)"
proof -
  assume a: "c \<notin> set post" "c \<noteq> d"
  have "rfind c (pre @ d # post) = rfind c pre"
    using a by (simp add: rfind_def rfind_from_append rfind_from_absent)
  then show ?thesis using rfind_bound [of c pre] by simp
qed

lemma split_nonempty: "split d s \<noteq> []"
  by (induction s) (auto split: list.splits)

lemma split_absent: "d \<notin> set s \<Longrightarrow> split d s = [s]"
  by (induction s) auto

lemma split_append: "split d (xs @ d # ys) = split d xs @ split d ys"
  by (induction xs) (auto split: list.splits simp: split_nonempty)

lemma concat_split: "concat (split d s) = filter (\<lambda>x. x \<noteq> d) s"
  by (induction s) (auto split: list.splits)

lemma split_last_sep:
  assumes "d \<notin> set post"
  shows "concat (butlast (split d (pre @ d # post))) = filter (\<lambda>x. x \<noteq> d) pre"
    and "last (split d (pre @ d # post)) = post"
  using assms by (simp_all add: split_append split_absent concat_split)

lemma split_single: "d \<notin> set pre \<Longrightarrow> d \<notin> set post \<Longrightarrow> split d (pre @ d # post) ! 1 = post"
  by (simp add: split_append split_absent)

lemma count_list_absent: "d \<notin> set s \<Longrightarrow> count_list s d = 0"
  by (induction s) auto

lemma count_list_zero_iff: "count_list s d = 0 \<longleftrightarrow> d \<notin> set s"
  by (induction s) auto

lemma collapse_dots_last:
  assumes "0x2E \<notin> set post"
  shows "collapse_dots (pre @ 0x2E # post) = filter (\<lambda>x. x \<noteq> 0x2E) pre @ 0x2E # post"
proof (cases "count_list (pre @ 0x2E # post) 0x2E > 1")
  case True
  then show ?thesis using assms split_last_sep [OF assms, of pre]
    by (simp add: collapse_dots_def Let_def)
next
  case False
  then have "count_list pre 0x2E = 0" using assms by (simp add: count_list_absent)
  then have "0x2E \<notin> set pre" by (simp add: count_list_zero_iff)
  then have "filter (\<lambda>x. x \<noteq> 0x2E) pre = pre" by (induction pre) auto
  then show ?thesis using False by (simp add: collapse_dots_def)
qed

lemma separators_both:
  assumes "sep = 0x2E \<or> sep = 0x2C"
    and "0x2E \<in> set (pre @ sep # post)" and "0x2C \<in> set (pre @ sep # post)"
    and "0x2E \<notin> set post" and "0x2C \<notin> set post"
  shows "collapse_dots (resolve_separators (pre @ sep # post)) =
         filter (\<lambda>c. c \<noteq> 0x2E \<and> c \<noteq> 0x2C) pre @ 0x2E # post"
proof -
  have post: "filter (\<lambda>x. x \<noteq> 0x2C) post = post" "filter (\<lambda>x. x \<noteq> 0x2E) post = post"
    using assms(4,5) by (induction post) auto
  from assms(1) show ?thesis
  proof
    assume s: "sep = 0x2E"
    have "rfind 0x2C (pre @ sep # post) < rfind 0x2E (pre @ sep # post)"
      using rfind_last [OF assms(4), of pre] rfind_before [of "0x2C" post "0x2E" pre] assms(5) s
      by simp
    then have "resolve_separators (pre @ sep # post) = filter (\<lambda>x. x \<noteq> 0x2C) pre @ 0x2E # post"
      using assms(2,3) s post by (simp add: resolve_separators_def Let_def replace_char_delete)
    then show ?thesis using collapse_dots_last [OF assms(4), of "filter (\<lambda>x. x \<noteq> 0x2C) pre"]
      by (simp add: conj_commute)
  next
    assume s: "sep = 0x2C"
    have "rfind 0x2E (pre @ sep # post) < rfind 0x2C (pre @ sep # post)"
      using rfind_last [OF assms(5), of pre] rfind_before [of "0x2E" post "0x2C" pre] assms(4) s
      by simp
    moreover have "map (\<lambda>x. if x = 0x2C then 0x2E else x) post = post"
      using assms(5) by (induction post) auto
    ultimately have "resolve_separators (pre @ sep # post) =
        map (\<lambda>x. if x = 0x2C then 0x2E else x) (filter (\<lambda>x. x \<noteq> 0x2E) pre) @ 0x2E # post"
      using assms(2,3,5) s post
      by (simp add: resolve_separators_def Let_def replace_char_delete replace_char_single)
    moreover have "filter (\<lambda>x. x \<noteq> 0x2E) (map (\<lambda>x. if x = 0x2C then 0x2E else x) (filter (\<lambda>x. x \<noteq> 0x2E) pre))
        = filter (\<lambda>c. c \<noteq> 0x2E \<and> c \<noteq> 0x2C) pre"
      by (induction pre) auto
    ultimately show ?thesis
      using collapse_dots_last [OF assms(4), of "map (\<lambda>x. if x = 0x2C then 0x2E else x) (filter (\<lambda>x. x \<noteq> 0x2E) pre)"]
      by simp
  qed
qed

lemma separators_single_comma:
  assumes "0x2C \<notin> set pre" and "0x2C \<notin> set post" and "0x2E \<notin> set pre" and "0x2E \<notin> set post"
  shows "collapse_dots (resolve_separators (pre @ 0x2C # post)) =
         (if length post \<le> 2 then pre @ 0x2E # post else pre @ post)"
proof -
  have cnt: "count_list (pre @ 0x2C # post) 0x2C = 1"
    using assms(1,2) by (simp add: count_list_absent)
  have f: "filter (\<lambda>x. x \<noteq> 0x2C) pre = pre" "filter (\<lambda>x. x \<noteq> 0x2C) post = post"
    using assms(1,2) by (induction pre, auto, induction post, auto)
  have m: "map (\<lambda>x. if x = 0x2C then 0x2E else x) pre = pre"
     "map (\<lambda>x. if x = 0x2C then 0x2E else x) post = post"
    using assms(1,2) by (induction pre, auto, induction post, auto)
  have r: "resolve_separators (pre @ 0x2C # post) =
      (if length post \<le> 2 then pre @ 0x2E # post else pre @ post)"
    using assms cnt f m split_single [OF assms(1,2)]
    by (simp add: resolve_separators_def replace_char_delete replace_char_single)
  have "count_list (pre @ 0x2E # post) 0x2E = 1" "count_list (pre @ post) 0x2E = 0"
    using assms(3,4) by (simp_all add: count_list_absent)
  then show ?thesis using r by (simp add: collapse_dots_def)
qed

section \<open>The numeric parser\<close>

text \<open>
  C10. The texts \<open>inf\<close> and \<open>nan\<close> hold no digit, yet \<open>_parse_numeric_text\<close> returns
  them as cleaned values, \<open>is_numeric_like\<close> holds of them, and
  \<open>convert_numeric_text\<close> returns the floats \<open>inf\<close> and \<open>nan\<close>, not \<open>pd.NA\<close>.
\<close>

theorem digitless_texts_are_numeric:
  "filter is_digit (ustr ''inf'') = [] \<and> filter is_digit (ustr ''nan'') = [] \<and>
   parse_numeric_text fstr (PStr (ustr ''inf'')) = (Some (ustr ''inf''), False) \<and>
   parse_numeric_text fstr (PStr (ustr ''nan'')) = (Some (ustr ''nan''), False) \<and>
   is_numeric_like fstr (PStr (ustr ''inf'')) \<and>
   is_numeric_like fstr (PStr (ustr ''nan'')) \<and>
   convert_numeric_text fstr (PStr (ustr ''inf'')) = Inr (Some PosInf) \<and>
   convert_numeric_text fstr (PStr (ustr ''nan'')) = Inr (Some NaN)"
proof -
  have "filter is_digit (ustr ''inf'') = []" "filter is_digit (ustr ''nan'') = []"
    by code_simp+
  moreover have "parse_numeric_text fstr (PStr (ustr ''inf'')) = (Some (ustr ''inf''), False)"
    by code_simp
  moreover have "parse_numeric_text fstr (PStr (ustr ''nan'')) = (Some (ustr ''nan''), False)"
    by code_simp
  moreover have "convert_numeric_text fstr (PStr (ustr ''inf'')) = Inr (Some PosInf)"
    by code_simp
  moreover have "convert_numeric_text fstr (PStr (ustr ''nan'')) = Inr (Some NaN)"
    by code_simp
  ultimately show ?thesis by (simp add: is_numeric_like_def)
qed

subsection \<open>Signs and currency symbols\<close>

lemma startswith_Cons: "startswith c (x # s) = (x = c)"
  by (simp add: startswith_def)

lemma startswith_Nil: "startswith c [] = False"
  by (simp add: startswith_def)

lemma endswith_Nil: "endswith c [] = False"
  by (simp add: endswith_def startswith_def)

lemma endswith_snoc: "endswith c (s @ [x]) = (x = c)"
  by (simp add: endswith_def startswith_def)

lemma endswith_Cons: "endswith c (x # s) = (if s = [] then x = c else endswith c s)"
  by (cases s rule: rev_cases) (simp_all add: endswith_def startswith_def)

lemma endswith_snoc2: "endswith c (s @ [y, x]) = (x = c)"
  using endswith_snoc [of c "s @ [y]" x] by simp

lemma strip_currency_symbols_filter:
  "strip_currency_symbols s = filter (\<lambda>c. c \<notin> set currency_symbols) s"
  by (induction s) (simp_all add: strip_currency_symbols_def currency_symbols_def replace_char_delete)

lemma strip_signs_parens:
  assumes "\<not> startswith 0x2D t" "\<not> startswith 0x2B t" "\<not> endswith 0x2D t"
  shows "strip_signs (0x28 # t @ [0x29]) = (t, True)"
  using assms
  by (simp add: strip_signs_def startswith_Cons endswith_Cons endswith_snoc)

lemma strip_signs_trailing:
  assumes "\<not> startswith 0x2D t" "\<not> startswith 0x2B t" "\<not> endswith 0x2D t"
  shows "strip_signs (t @ [0x2D]) = (t, True)"
  using assms
  by (simp add: strip_signs_def endswith_snoc)

lemma strip_signs_leading:
  assumes "\<not> startswith 0x2D t" "\<not> startswith 0x2B t" "\<not> endswith 0x2D t"
  shows "strip_signs (0x2D # t) = (t, True)"
  using assms
  by (cases "t = []") (simp_all add: strip_signs_def startswith_Cons startswith_Nil endswith_Cons endswith_Nil)

lemma strip_signs_plus:
  assumes "\<not> startswith 0x2D t" "\<not> startswith 0x2B t" "\<not> endswith 0x2D t"
  shows "strip_signs (0x2B # t) = (t, False)"
  using assms
  by (cases "t = []") (simp_all add: strip_signs_def startswith_Cons startswith_Nil endswith_Cons endswith_Nil)

lemma strip_signs_none:
  assumes "\<not> startswith 0x2D t" "\<not> startswith 0x2B t" "\<not> endswith 0x2D t"
    and "\<not> (startswith 0x28 t \<and> endswith 0x29 t)"
  shows "strip_signs t = (t, False)"
  using assms by (auto simp add: strip_signs_def)

lemma strip_signs_parens_trailing:
  assumes "\<not> startswith 0x2D t" "\<not> startswith 0x2B t" "\<not> endswith 0x2D t"
  shows "strip_signs (0x28 # t @ [0x2D, 0x29]) = (t, True)"
  using assms
  by (simp add: strip_signs_def startswith_Cons endswith_Cons endswith_snoc endswith_snoc2 butlast_append)

lemma strip_signs_both_minus:
  assumes "\<not> startswith 0x2D t" "\<not> startswith 0x2B t" "\<not> endswith 0x2D t"
  shows "strip_signs (0x2D # t @ [0x2D]) = (t, True)"
  using assms
  by (simp add: strip_signs_def startswith_Cons endswith_Cons endswith_snoc butlast_append)

subsection \<open>Decimal point and thousands separators\<close>

lemma digitpart_digits: "s \<noteq> [] \<Longrightarrow> \<forall>c \<in> set s. is_digit c \<Longrightarrow> digitpart s"
proof (induction s rule: digitpart.induct)
  case (3 c d s)
  then have "d \<noteq> 0x5F" by (auto simp: is_digit_def)
  then show ?case using 3 by simp
qed simp_all

lemma dropWhile_none: "\<forall>x \<in> set xs. \<not> P x \<Longrightarrow> dropWhile P xs = xs"
  by (cases xs) auto

lemma strip_no_space: "\<forall>c \<in> set s. \<not> isspace c \<Longrightarrow> strip s = s"
proof -
  assume a: "\<forall>c \<in> set s. \<not> isspace c"
  then have b: "\<forall>c \<in> set (rev s). \<not> isspace c" by simp
  show ?thesis unfolding strip_def dropWhile_none [OF a] dropWhile_none [OF b] by simp
qed

lemma float_strip_no_space: "\<forall>c \<in> set s. \<not> float_space c \<Longrightarrow> float_strip s = s"
proof -
  assume a: "\<forall>c \<in> set s. \<not> float_space c"
  then have b: "\<forall>c \<in> set (rev s). \<not> float_space c" by simp
  show ?thesis unfolding float_strip_def dropWhile_none [OF a] dropWhile_none [OF b] by simp
qed

lemma compat_keys: "map_of compat_table c = Some d \<Longrightarrow> 0xA0 \<le> c"
  by (auto simp: compat_table_def split: if_splits)

lemma nfkc_ascii: "\<forall>c \<in> set s. c < 0xA0 \<Longrightarrow> nfkc s = s"
proof (induction s)
  case (Cons c s)
  have "map_of compat_table c = None"
    using Cons.prems compat_keys [of c] by (cases "map_of compat_table c") auto
  then show ?case using Cons by (simp add: nfkc_def nfkc_char_def)
qed (simp add: nfkc_def)

lemma replace_char_absent: "x \<notin> set s \<Longrightarrow> replace_char x new s = s"
  by (induction s) (auto simp: replace_char_def)

lemma startswith_mem: "startswith c s \<Longrightarrow> c \<in> set s"
  by (cases s) (auto simp: startswith_def)

lemma endswith_mem: "endswith c s \<Longrightarrow> c \<in> set s"
  using startswith_mem [of c "rev s"] by (simp add: endswith_def)

lemma digit_char:
  assumes "is_digit c \<or> c = 0x2E \<or> c = 0x2C"
  shows "\<not> isspace c" and "c < 0xA0" and "c \<notin> set currency_symbols"
    and "c \<notin> {0x20, 0x27, 0x28, 0x2B, 0x2D, 0x45, 0x65, 0x6E}" and "ascii_lower c = c"
    and "\<not> float_space c"
  using assms
  by (auto simp: is_digit_def isspace_def float_space_def currency_symbols_def ascii_lower_def)

text \<open>A text of digits, points and commas reaches lines 68 to 83 as it is.\<close>

lemma parse_numeric_text_plain:
  assumes "s \<noteq> []" and "\<forall>c \<in> set s. is_digit c \<or> c = 0x2E \<or> c = 0x2C"
  shows "parse_numeric_text fstr (PStr s) =
     (let cleaned = replace_char 0x27 [] (collapse_dots (resolve_separators s))
      in case py_float_str cleaned of None \<Rightarrow> (None, False) | Some _ \<Rightarrow> (Some cleaned, False))"
proof -
  have "strip s = s" using assms(2) digit_char(1) by (intro strip_no_space) blast
  then have 1: "coerce_to_string fstr (PStr s) = Some s" using assms(1) by (simp add: coerce_to_string_def)
  have 2: "nfkc s = s" using assms(2) digit_char(2) by (intro nfkc_ascii) blast
  have no: "x \<in> {0x20, 0x27, 0x28, 0x2B, 0x2D, 0x45, 0x65, 0x6E} \<Longrightarrow> x \<notin> set s" for x
    using assms(2) digit_char(4) by blast
  have "0xA0 \<notin> set s" using assms(2) digit_char(2) by fastforce
  then have 3: "replace_char 0xA0 [] s = s" "replace_char 0x20 [] s = s"
    using no [of "0x20"] by (simp_all add: replace_char_absent)
  have 4: "strip_currency_symbols s = s"
    unfolding strip_currency_symbols_filter using assms(2) digit_char(3)
    by (intro filter_True) blast
  have "\<not> startswith 0x2D s" "\<not> startswith 0x2B s" "\<not> endswith 0x2D s" "\<not> startswith 0x28 s"
    using no [of "0x2D"] no [of "0x2B"] no [of "0x28"] startswith_mem endswith_mem by auto
  then have 5: "strip_signs s = (s, False)" by (intro strip_signs_none) auto
  show ?thesis by (simp add: parse_numeric_text_def 1 2 3 4 5)
qed

lemma py_float_str_decimal:
  assumes "\<forall>c \<in> set ip. is_digit c" and "\<forall>c \<in> set fp. is_digit c" and "ip \<noteq> [] \<or> fp \<noteq> []"
  shows "py_float_str (ip @ 0x2E # fp) = Some (round_overflow (decimal_value ip fp 0))"
proof -
  let ?s = "ip @ 0x2E # fp"
  have all: "\<forall>c \<in> set ?s. is_digit c \<or> c = 0x2E \<or> c = 0x2C" using assms(1,2) by auto
  have no: "x \<in> {0x20, 0x27, 0x28, 0x2B, 0x2D, 0x45, 0x65, 0x6E} \<Longrightarrow> x \<notin> set ?s" for x
    using all digit_char(4) by blast
  have 1: "float_strip ?s = ?s" using all digit_char(6) by (intro float_strip_no_space) blast
  have "hd ?s \<in> set ?s" by (rule hd_in_set) simp
  then have "hd ?s \<noteq> 0x2D" "hd ?s \<noteq> 0x2B" using no [of "0x2D"] no [of "0x2B"] by auto
  then have 2: "split_sign ?s = (False, ?s)"
    by (cases ?s) (auto simp: split_sign_def)
  have 3: "map ascii_lower ?s = ?s"
    using all digit_char(5) by (intro map_idI) blast
  have "0x6E \<in> set (ustr ''inf'')" "0x6E \<in> set (ustr ''infinity'')" "0x6E \<in> set (ustr ''nan'')"
    by (simp_all add: ustr_def)
  moreover have "0x6E \<notin> set ?s" using no [of "0x6E"] by simp
  ultimately have 4: "?s \<noteq> ustr ''inf''" "?s \<noteq> ustr ''infinity''" "?s \<noteq> ustr ''nan''"
    by metis+
  have "\<forall>c \<in> set ?s. c \<noteq> 0x65 \<and> c \<noteq> 0x45" using no [of "0x65"] no [of "0x45"] by auto
  then have e: "takeWhile (\<lambda>c. c \<noteq> 0x65 \<and> c \<noteq> 0x45) ?s = ?s"
    "dropWhile (\<lambda>c. c \<noteq> 0x65 \<and> c \<noteq> 0x45) ?s = []"
    by (simp_all only: takeWhile_eq_all_conv dropWhile_eq_Nil_conv)
  have "0x2E \<notin> set ip" using assms(1) by (auto simp: is_digit_def)
  then have d: "takeWhile (\<lambda>c. c \<noteq> 0x2E) ?s = ip" "dropWhile (\<lambda>c. c \<noteq> 0x2E) ?s = 0x2E # fp"
    by (simp_all add: takeWhile_append dropWhile_append)
  have dp: "ip = [] \<or> digitpart ip" "fp = [] \<or> digitpart fp"
    using assms(1,2) digitpart_digits by blast+
  have 5: "parse_number ?s = Some (decimal_value ip fp 0)"
    unfolding parse_number_def Let_def e d using dp assms(3) by (simp add: Let_def)
  show ?thesis unfolding py_float_str_def 1 2 Let_def prod.case 3 using 4 5 by simp
qed

lemma py_float_str_integer:
  assumes "\<forall>c \<in> set ip. is_digit c" and "ip \<noteq> []"
  shows "py_float_str ip = Some (round_overflow (decimal_value ip [] 0))"
proof -
  have all: "\<forall>c \<in> set ip. is_digit c \<or> c = 0x2E \<or> c = 0x2C" using assms(1) by auto
  have no: "x \<in> {0x20, 0x27, 0x28, 0x2B, 0x2D, 0x45, 0x65, 0x6E} \<Longrightarrow> x \<notin> set ip" for x
    using all digit_char(4) by blast
  have 1: "float_strip ip = ip" using all digit_char(6) by (intro float_strip_no_space) blast
  have "hd ip \<in> set ip" using assms(2) by (rule hd_in_set)
  then have "hd ip \<noteq> 0x2D" "hd ip \<noteq> 0x2B" using no [of "0x2D"] no [of "0x2B"] by auto
  then have 2: "split_sign ip = (False, ip)"
    by (cases ip) (auto simp: split_sign_def)
  have 3: "map ascii_lower ip = ip"
    using all digit_char(5) by (intro map_idI) blast
  have "0x6E \<in> set (ustr ''inf'')" "0x6E \<in> set (ustr ''infinity'')" "0x6E \<in> set (ustr ''nan'')"
    by (simp_all add: ustr_def)
  moreover have "0x6E \<notin> set ip" using no [of "0x6E"] by simp
  ultimately have 4: "ip \<noteq> ustr ''inf''" "ip \<noteq> ustr ''infinity''" "ip \<noteq> ustr ''nan''"
    by metis+
  have "\<forall>c \<in> set ip. c \<noteq> 0x65 \<and> c \<noteq> 0x45" using no [of "0x65"] no [of "0x45"] by auto
  then have e: "takeWhile (\<lambda>c. c \<noteq> 0x65 \<and> c \<noteq> 0x45) ip = ip"
    "dropWhile (\<lambda>c. c \<noteq> 0x65 \<and> c \<noteq> 0x45) ip = []"
    by (simp_all only: takeWhile_eq_all_conv dropWhile_eq_Nil_conv)
  have "\<forall>c \<in> set ip. c \<noteq> 0x2E" using assms(1) by (auto simp: is_digit_def)
  then have d: "takeWhile (\<lambda>c. c \<noteq> 0x2E) ip = ip" "dropWhile (\<lambda>c. c \<noteq> 0x2E) ip = []"
    by (simp_all only: takeWhile_eq_all_conv dropWhile_eq_Nil_conv)
  have 5: "parse_number ip = Some (decimal_value ip [] 0)"
    unfolding parse_number_def Let_def e d using digitpart_digits [OF assms(2,1)] by (simp add: Let_def)
  show ?thesis unfolding py_float_str_def 1 2 by (simp add: 3 4 5 Let_def)
qed

lemma parse_both_separators:
  assumes "sep = 0x2E \<or> sep = 0x2C"
    and "0x2E \<in> set (pre @ sep # post)" and "0x2C \<in> set (pre @ sep # post)"
    and "\<forall>c \<in> set pre. is_digit c \<or> c = 0x2E \<or> c = 0x2C" and "\<forall>c \<in> set post. is_digit c"
    and "filter is_digit pre \<noteq> [] \<or> post \<noteq> []"
  shows "parse_numeric_text fstr (PStr (pre @ sep # post)) =
           (Some (filter is_digit pre @ 0x2E # post), False)"
    and "convert_numeric_text fstr (PStr (pre @ sep # post)) =
           Inr (Some (round_overflow (decimal_value (filter is_digit pre) post 0)))"
proof -
  let ?s = "pre @ sep # post"
  let ?c = "filter is_digit pre @ 0x2E # post"
  have post: "0x2E \<notin> set post" "0x2C \<notin> set post"
    using assms(5) by (auto simp: is_digit_def)
  have "filter (\<lambda>c. c \<noteq> 0x2E \<and> c \<noteq> 0x2C) pre = filter is_digit pre"
    using assms(4) by (intro filter_cong) (auto simp: is_digit_def)
  then have 1: "collapse_dots (resolve_separators ?s) = ?c"
    using separators_both [OF assms(1,2,3) post] by simp
  have "\<forall>c \<in> set ?c. is_digit c \<or> c = 0x2E \<or> c = 0x2C" using assms(5) by auto
  then have "0x27 \<notin> set ?c" using digit_char(4) by blast
  then have 2: "replace_char 0x27 [] ?c = ?c" by (rule replace_char_absent)
  have 3: "py_float_str ?c = Some (round_overflow (decimal_value (filter is_digit pre) post 0))"
    using assms(5,6) by (intro py_float_str_decimal) auto
  have "\<forall>c \<in> set ?s. is_digit c \<or> c = 0x2E \<or> c = 0x2C" using assms(1,4,5) by auto
  then have "parse_numeric_text fstr (PStr ?s) =
     (let cleaned = replace_char 0x27 [] (collapse_dots (resolve_separators ?s))
      in case py_float_str cleaned of None \<Rightarrow> (None, False) | Some _ \<Rightarrow> (Some cleaned, False))"
    by (intro parse_numeric_text_plain) simp_all
  then show p: "parse_numeric_text fstr (PStr ?s) = (Some ?c, False)"
    unfolding 1 2 Let_def 3 by simp
  show "convert_numeric_text fstr (PStr ?s) =
           Inr (Some (round_overflow (decimal_value (filter is_digit pre) post 0)))"
    unfolding convert_numeric_text_def pyval.case p prod.case option.case 3 by simp
qed

lemma parse_single_comma:
  assumes "\<forall>c \<in> set a. is_digit c" and "\<forall>c \<in> set b. is_digit c" and "a \<noteq> [] \<or> b \<noteq> []"
  shows "parse_numeric_text fstr (PStr (a @ 0x2C # b)) =
           (Some (if length b \<le> 2 then a @ 0x2E # b else a @ b), False)"
    and "convert_numeric_text fstr (PStr (a @ 0x2C # b)) =
           Inr (Some (round_overflow
             (if length b \<le> 2 then decimal_value a b 0 else decimal_value (a @ b) [] 0)))"
proof -
  let ?s = "a @ 0x2C # b"
  let ?c = "if length b \<le> 2 then a @ 0x2E # b else a @ b"
  have no: "0x2C \<notin> set a" "0x2C \<notin> set b" "0x2E \<notin> set a" "0x2E \<notin> set b"
    using assms(1,2) by (auto simp: is_digit_def)
  have 1: "collapse_dots (resolve_separators ?s) = ?c"
    using separators_single_comma [OF no] .
  have "\<forall>c \<in> set ?c. is_digit c \<or> c = 0x2E \<or> c = 0x2C" using assms(1,2) by auto
  then have "0x27 \<notin> set ?c" using digit_char(4) by blast
  then have 2: "replace_char 0x27 [] ?c = ?c" by (rule replace_char_absent)
  have 3: "py_float_str ?c = Some (round_overflow
             (if length b \<le> 2 then decimal_value a b 0 else decimal_value (a @ b) [] 0))"
  proof (cases "length b \<le> 2")
    case True
    then show ?thesis using py_float_str_decimal [OF assms] by simp
  next
    case False
    then have "a @ b \<noteq> []" by auto
    moreover have "\<forall>c \<in> set (a @ b). is_digit c" using assms(1,2) by auto
    ultimately show ?thesis using False py_float_str_integer [of "a @ b"] by simp
  qed
  have "\<forall>c \<in> set ?s. is_digit c \<or> c = 0x2E \<or> c = 0x2C" using assms(1,2) by auto
  then have "parse_numeric_text fstr (PStr ?s) =
     (let cleaned = replace_char 0x27 [] (collapse_dots (resolve_separators ?s))
      in case py_float_str cleaned of None \<Rightarrow> (None, False) | Some _ \<Rightarrow> (Some cleaned, False))"
    by (intro parse_numeric_text_plain) simp_all
  then show p: "parse_numeric_text fstr (PStr ?s) = (Some ?c, False)"
    unfolding 1 2 Let_def 3 by simp
  show "convert_numeric_text fstr (PStr ?s) =
           Inr (Some (round_overflow
             (if length b \<le> 2 then decimal_value a b 0 else decimal_value (a @ b) [] 0)))"
    unfolding convert_numeric_text_def pyval.case p prod.case option.case 3 by simp
qed

subsection \<open>The parser on every value\<close>

text \<open>\<open>_parse_numeric_text\<close> as the composition of its stages.\<close>

lemma parse_numeric_text_staged:
  "parse_numeric_text fstr v =
     (case coerce_to_string fstr v of
        None \<Rightarrow> (None, False)
      | Some text \<Rightarrow>
          (case before_separators text of
             (t, neg) \<Rightarrow>
               (let cleaned = replace_char 0x27 [] (collapse_dots (resolve_separators t))
                in case py_float_str cleaned of
                     None \<Rightarrow> (None, False)
                   | Some x \<Rightarrow> (Some cleaned, neg))))"
  by (simp add: parse_numeric_text_def before_separators_def before_signs_def Let_def
      split: option.splits prod.splits)

lemma parse_by_signs:
  assumes "coerce_to_string fstr v = Some text" and "strip_signs (before_signs text) = (c, n)"
  shows "parse_numeric_text fstr v =
     (let cleaned = replace_char 0x27 [] (collapse_dots (resolve_separators (replace_char 0x20 [] c)))
      in case py_float_str cleaned of None \<Rightarrow> (None, False) | Some x \<Rightarrow> (Some cleaned, n))"
  using assms by (simp add: parse_numeric_text_staged before_separators_def)

lemma parse_signed:
  assumes "coerce_to_string fstr v = Some tv" and "strip_signs (before_signs tv) = (c, n)"
    and "parse_numeric_text fstr w =
     (let cleaned = replace_char 0x27 [] (collapse_dots (resolve_separators (replace_char 0x20 [] c)))
      in case py_float_str cleaned of None \<Rightarrow> (None, False) | Some x \<Rightarrow> (Some cleaned, False))"
  shows "parse_numeric_text fstr v =
     (case fst (parse_numeric_text fstr w) of None \<Rightarrow> (None, False) | Some x \<Rightarrow> (Some x, n))"
  unfolding parse_by_signs [OF assms(1,2)] assms(3)
  by (simp add: Let_def split: option.splits)

lemma parse_signs_general:
  assumes "coerce_to_string fstr v = Some tv" and "coerce_to_string fstr w = Some tw"
    and "\<not> startswith 0x2D (before_signs tw)" and "\<not> startswith 0x2B (before_signs tw)"
    and "\<not> endswith 0x2D (before_signs tw)"
    and "\<not> (startswith 0x28 (before_signs tw) \<and> endswith 0x29 (before_signs tw))"
  shows "snd (parse_numeric_text fstr w) = False"
    and "before_signs tv = 0x28 # before_signs tw @ [0x29] \<or>
         before_signs tv = before_signs tw @ [0x2D] \<or>
         before_signs tv = 0x2D # before_signs tw \<or>
         before_signs tv = 0x28 # before_signs tw @ [0x2D, 0x29] \<or>
         before_signs tv = 0x2D # before_signs tw @ [0x2D] \<Longrightarrow>
         parse_numeric_text fstr v =
           (case fst (parse_numeric_text fstr w) of None \<Rightarrow> (None, False) | Some x \<Rightarrow> (Some x, True))"
    and "before_signs tv = 0x2B # before_signs tw \<or> before_signs tv = before_signs tw \<Longrightarrow>
         parse_numeric_text fstr v = parse_numeric_text fstr w"
proof -
  let ?u = "before_signs tw"
  have w: "strip_signs ?u = (?u, False)" using assms(3-6) by (intro strip_signs_none) auto
  note pw = parse_by_signs [OF assms(2) w]
  show sw: "snd (parse_numeric_text fstr w) = False"
    unfolding pw by (simp add: Let_def split: option.splits)
  {
    assume "before_signs tv = 0x28 # ?u @ [0x29] \<or> before_signs tv = ?u @ [0x2D] \<or>
         before_signs tv = 0x2D # ?u \<or> before_signs tv = 0x28 # ?u @ [0x2D, 0x29] \<or>
         before_signs tv = 0x2D # ?u @ [0x2D]"
    then have "strip_signs (before_signs tv) = (?u, True)"
      using strip_signs_parens [OF assms(3-5)] strip_signs_trailing [OF assms(3-5)]
        strip_signs_leading [OF assms(3-5)] strip_signs_parens_trailing [OF assms(3-5)]
        strip_signs_both_minus [OF assms(3-5)] by auto
    from parse_signed [OF assms(1) this pw]
    show "parse_numeric_text fstr v =
           (case fst (parse_numeric_text fstr w) of None \<Rightarrow> (None, False) | Some x \<Rightarrow> (Some x, True))" .
  }
  {
    assume "before_signs tv = 0x2B # ?u \<or> before_signs tv = ?u"
    then have "strip_signs (before_signs tv) = (?u, False)"
      using strip_signs_plus [OF assms(3-5)] w by auto
    from parse_signed [OF assms(1) this pw]
    have "parse_numeric_text fstr v =
           (case fst (parse_numeric_text fstr w) of None \<Rightarrow> (None, False) | Some x \<Rightarrow> (Some x, False))" .
    then show "parse_numeric_text fstr v = parse_numeric_text fstr w"
      using sw by (cases "parse_numeric_text fstr w") (auto split: option.splits)
  }
qed

lemma currency_symbols_set:
  "set currency_symbols = {0x24, 0x20AC, 0xA3, 0xA5, 0x20BD, 0x20B1, 0x20B9}"
  by (simp add: currency_symbols_def)

lemma before_signs_filter:
  "before_signs text =
     filter (\<lambda>c. c \<notin> {0x24, 0x20AC, 0xA3, 0xA5, 0x20BD, 0x20B1, 0x20B9}) (replace_char 0xA0 [] (nfkc text))"
  unfolding before_signs_def strip_currency_symbols_filter currency_symbols_set ..

lemma strip_fixed_iff: "strip s = s \<longleftrightarrow> s = [] \<or> (\<not> isspace (hd s) \<and> \<not> isspace (last s))"
proof (cases "s = []")
  case True
  then show ?thesis by (simp add: strip_def)
next
  case False
  show ?thesis
  proof
    assume a: "strip s = s"
    have h: "\<not> isspace (hd s)"
    proof
      assume "isspace (hd s)"
      then have "length (dropWhile isspace s) < length s"
        using False by (cases s) (auto simp: less_Suc_eq_le length_dropWhile_le)
      moreover have "length (strip s) \<le> length (dropWhile isspace s)"
        using length_dropWhile_le [of isspace "rev (dropWhile isspace s)"] by (simp add: strip_def)
      ultimately show False using a by simp
    qed
    then have "dropWhile isspace s = s" using False by (cases s) auto
    then have e: "dropWhile isspace (rev s) = rev s" using a by (simp add: strip_def rev_swap)
    have "dropWhile isspace (rev s) \<noteq> []" using e False by simp
    then have "\<not> isspace (hd (dropWhile isspace (rev s)))" by (rule hd_dropWhile)
    then have "\<not> isspace (hd (rev s))" using e by simp
    then show "s = [] \<or> (\<not> isspace (hd s) \<and> \<not> isspace (last s))"
      using h False by (simp add: hd_rev)
  next
    assume "s = [] \<or> (\<not> isspace (hd s) \<and> \<not> isspace (last s))"
    then have h: "\<not> isspace (hd s)" "\<not> isspace (hd (rev s))" using False by (simp_all add: hd_rev)
    have 1: "dropWhile isspace s = s" using h(1) False by (cases s) auto
    have 2: "dropWhile isspace (rev s) = rev s" using h(2) False by (cases "rev s") auto
    show "strip s = s" by (simp add: strip_def 1 2)
  qed
qed

lemma coerce_to_string_text:
  "coerce_to_string fstr (PStr s) = (if strip s = [] then None else Some (strip s))"
  by (simp add: coerce_to_string_def Let_def)

lemma currency_not_compat:
  "c \<in> {0x24, 0x20AC, 0xA3, 0xA5, 0x20BD, 0x20B1, 0x20B9} \<Longrightarrow> map_of compat_table c = None"
  by (auto simp: compat_table_def)

lemma nfkc_plain: "\<forall>c \<in> set s. map_of compat_table c = None \<Longrightarrow> nfkc s = s"
  by (induction s) (simp_all add: nfkc_def nfkc_char_def)

lemma before_signs_currency:
  assumes "\<forall>c \<in> set s. c < 0xA0 \<or> c \<in> {0x24, 0x20AC, 0xA3, 0xA5, 0x20BD, 0x20B1, 0x20B9}"
  shows "before_signs s = filter (\<lambda>c. c \<notin> {0x24, 0x20AC, 0xA3, 0xA5, 0x20BD, 0x20B1, 0x20B9}) s"
proof -
  have "map_of compat_table c = None" if "c \<in> set s" for c
  proof (cases "c < 0xA0")
    case True
    then show ?thesis using compat_keys [of c] by (cases "map_of compat_table c") auto
  next
    case False
    from assms that have "c < 0xA0 \<or> c \<in> {0x24, 0x20AC, 0xA3, 0xA5, 0x20BD, 0x20B1, 0x20B9}"
      by (rule bspec)
    with False have "c \<in> {0x24, 0x20AC, 0xA3, 0xA5, 0x20BD, 0x20B1, 0x20B9}" by metis
    then show ?thesis by (rule currency_not_compat)
  qed
  then have 1: "nfkc s = s" by (intro nfkc_plain) blast
  have "0xA0 \<notin> set s"
  proof
    assume "0xA0 \<in> set s"
    with assms have "(0xA0::int) < 0xA0 \<or> 0xA0 \<in> {0x24, 0x20AC, 0xA3, 0xA5, 0x20BD, 0x20B1, 0x20B9::int}"
      by (rule bspec)
    then show False by simp
  qed
  then have 2: "replace_char 0xA0 [] s = s" by (rule replace_char_absent)
  show ?thesis unfolding before_signs_filter 1 2 ..
qed

lemma before_signs_plain:
  assumes "\<forall>c \<in> set s. c < 0xA0 \<and> c \<noteq> 0x24"
  shows "before_signs s = s"
proof -
  have "before_signs s = filter (\<lambda>c. c \<notin> {0x24, 0x20AC, 0xA3, 0xA5, 0x20BD, 0x20B1, 0x20B9}) s"
    using assms by (intro before_signs_currency) blast
  also have "\<dots> = s" using assms by (intro filter_True) auto
  finally show ?thesis .
qed

lemma py_float_str_empty: "py_float_str [] = None"
  by code_simp

lemma parse_empty_signs:
  assumes "coerce_to_string fstr w = None" 
  shows "parse_numeric_text fstr w =
     (let cleaned = replace_char 0x27 [] (collapse_dots (resolve_separators (replace_char 0x20 [] [])))
      in case py_float_str cleaned of None \<Rightarrow> (None, False) | Some x \<Rightarrow> (Some cleaned, False))"
proof -
  have "replace_char 0x27 [] (collapse_dots (resolve_separators (replace_char 0x20 [] []))) = []"
    by code_simp
  then show ?thesis using assms py_float_str_empty by (simp add: parse_numeric_text_def)
qed

text \<open>
  The parser on a plain text \<open>t\<close>, without surrounding whitespace and without a
  sign of its own.
\<close>

lemma parse_plain_text:
  assumes "\<forall>c \<in> set t. c < 0xA0 \<and> c \<noteq> 0x24" and "strip t = t"
    and "\<not> startswith 0x2D t" and "\<not> startswith 0x2B t" and "\<not> endswith 0x2D t"
    and "\<not> (startswith 0x28 t \<and> endswith 0x29 t)"
  shows "parse_numeric_text fstr (PStr t) =
     (let cleaned = replace_char 0x27 [] (collapse_dots (resolve_separators (replace_char 0x20 [] t)))
      in case py_float_str cleaned of None \<Rightarrow> (None, False) | Some x \<Rightarrow> (Some cleaned, False))"
proof (cases "t = []")
  case True
  then have "coerce_to_string fstr (PStr t) = None" by (simp add: coerce_to_string_text strip_def)
  then show ?thesis using parse_empty_signs True by simp
next
  case False
  then have c: "coerce_to_string fstr (PStr t) = Some t" using assms(2) by (simp add: coerce_to_string_text)
  have "strip_signs (before_signs t) = (t, False)"
    unfolding before_signs_plain [OF assms(1)] using assms(3-6) by (intro strip_signs_none) auto
  from parse_by_signs [OF c this] show ?thesis .
qed

lemma strip_wrap:
  assumes "strip t = t" and "\<not> isspace a" and "\<not> isspace b"
  shows "strip (a # t @ [b]) = a # t @ [b]" and "strip (t @ [b]) = t @ [b]"
    and "strip (a # t) = a # t"
proof -
  have e: "t = [] \<or> (\<not> isspace (hd t) \<and> \<not> isspace (last t))"
    using assms(1) strip_fixed_iff [of t] by (rule iffD1 [rotated])
  have "\<not> isspace (hd (a # t @ [b])) \<and> \<not> isspace (last (a # t @ [b]))"
    using assms(2,3) by simp
  then show "strip (a # t @ [b]) = a # t @ [b]"
    using strip_fixed_iff [of "a # t @ [b]"] by blast
  have "\<not> isspace (hd (t @ [b])) \<and> \<not> isspace (last (t @ [b]))"
    using e assms(3) by (cases "t = []") simp_all
  then show "strip (t @ [b]) = t @ [b]"
    using strip_fixed_iff [of "t @ [b]"] by blast
  have "\<not> isspace (hd (a # t)) \<and> \<not> isspace (last (a # t))"
    using e assms(2) by (cases "t = []") simp_all
  then show "strip (a # t) = a # t"
    using strip_fixed_iff [of "a # t"] by blast
qed

lemma parse_wrapped:
  assumes "\<forall>c \<in> set t. c < 0xA0 \<and> c \<noteq> 0x24" and "strip t = t"
    and "\<not> startswith 0x2D t" and "\<not> startswith 0x2B t" and "\<not> endswith 0x2D t"
    and "\<not> (startswith 0x28 t \<and> endswith 0x29 t)"
    and "strip s = s" and "s \<noteq> []" and "set s \<subseteq> set t \<union> {0x28, 0x29, 0x2B, 0x2D}"
    and "strip_signs s = (t, n)"
  shows "parse_numeric_text fstr (PStr s) =
     (case fst (parse_numeric_text fstr (PStr t)) of
        None \<Rightarrow> (None, False) | Some x \<Rightarrow> (Some x, n))"
proof -
  have c: "coerce_to_string fstr (PStr s) = Some s"
    using assms(7,8) by (simp add: coerce_to_string_text)
  have "\<forall>c \<in> set s. c < 0xA0 \<and> c \<noteq> 0x24" using assms(1,9) by auto
  then have "before_signs s = s" by (rule before_signs_plain)
  then have "strip_signs (before_signs s) = (t, n)" using assms(10) by simp
  from parse_signed [OF c this parse_plain_text [OF assms(1-6)]] show ?thesis .
qed

lemma parse_negative_text:
  assumes "\<forall>c \<in> set t. c < 0xA0 \<and> c \<noteq> 0x24" and "strip t = t"
    and "\<not> startswith 0x2D t" and "\<not> startswith 0x2B t" and "\<not> endswith 0x2D t"
    and "\<not> (startswith 0x28 t \<and> endswith 0x29 t)"
    and "s = 0x28 # t @ [0x29] \<or> s = t @ [0x2D] \<or> s = 0x2D # t \<or>
         s = 0x28 # t @ [0x2D, 0x29] \<or> s = 0x2D # t @ [0x2D]"
  shows "parse_numeric_text fstr (PStr s) =
     (case fst (parse_numeric_text fstr (PStr t)) of
        None \<Rightarrow> (None, False) | Some x \<Rightarrow> (Some x, True))"
proof -
  have sp: "\<not> isspace 0x28" "\<not> isspace 0x29" "\<not> isspace 0x2D"
    by (simp_all add: isspace_def)
  have t2: "strip (t @ [0x2D]) = t @ [0x2D]" using strip_wrap(2) [OF assms(2) sp(1) sp(3)] .
  note w = parse_wrapped [OF assms(1-6)]
  from assms(7) consider (a) "s = 0x28 # t @ [0x29]" | (b) "s = t @ [0x2D]" | (c) "s = 0x2D # t"
    | (d) "s = 0x28 # t @ [0x2D, 0x29]" | (e) "s = 0x2D # t @ [0x2D]" by blast
  then show ?thesis
  proof cases
    case a
    show ?thesis unfolding a
      using strip_wrap(1) [OF assms(2) sp(1) sp(2)] strip_signs_parens [OF assms(3-5)]
      by (intro w) auto
  next
    case b
    show ?thesis unfolding b
      using t2 strip_signs_trailing [OF assms(3-5)] by (intro w) auto
  next
    case c
    show ?thesis unfolding c
      using strip_wrap(3) [OF assms(2) sp(3) sp(3)] strip_signs_leading [OF assms(3-5)]
      by (intro w) auto
  next
    case d
    have "strip (0x28 # (t @ [0x2D]) @ [0x29]) = 0x28 # (t @ [0x2D]) @ [0x29]"
      using strip_wrap(1) [OF t2 sp(1) sp(2)] .
    then show ?thesis unfolding d
      using strip_signs_parens_trailing [OF assms(3-5)] by (intro w) auto
  next
    case e
    have "strip (0x2D # (t @ [0x2D])) = 0x2D # (t @ [0x2D])"
      using strip_wrap(3) [OF t2 sp(3) sp(3)] .
    then show ?thesis unfolding e
      using strip_signs_both_minus [OF assms(3-5)] by (intro w) auto
  qed
qed

lemma parse_plus_text:
  assumes "\<forall>c \<in> set t. c < 0xA0 \<and> c \<noteq> 0x24" and "strip t = t"
    and "\<not> startswith 0x2D t" and "\<not> startswith 0x2B t" and "\<not> endswith 0x2D t"
    and "\<not> (startswith 0x28 t \<and> endswith 0x29 t)"
  shows "parse_numeric_text fstr (PStr (0x2B # t)) = parse_numeric_text fstr (PStr t)"
    and "snd (parse_numeric_text fstr (PStr t)) = False"
proof -
  have sp: "\<not> isspace 0x2B" by (simp add: isspace_def)
  show f: "snd (parse_numeric_text fstr (PStr t)) = False"
    unfolding parse_plain_text [OF assms] by (simp add: Let_def split: option.splits)
  have "parse_numeric_text fstr (PStr (0x2B # t)) =
     (case fst (parse_numeric_text fstr (PStr t)) of
        None \<Rightarrow> (None, False) | Some x \<Rightarrow> (Some x, False))"
    using strip_wrap(3) [OF assms(2) sp sp] strip_signs_plus [OF assms(3-5)]
    by (intro parse_wrapped [OF assms]) auto
  then show "parse_numeric_text fstr (PStr (0x2B # t)) = parse_numeric_text fstr (PStr t)"
    using f by (cases "parse_numeric_text fstr (PStr t)") (auto split: option.splits)
qed

lemma convert_negated_text:
  assumes "parse_numeric_text fstr (PStr s) =
     (case fst (parse_numeric_text fstr (PStr t)) of
        None \<Rightarrow> (None, False) | Some x \<Rightarrow> (Some x, True))"
    and "snd (parse_numeric_text fstr (PStr t)) = False"
  shows "convert_numeric_text fstr (PStr s) =
     map_sum id (map_option fneg) (convert_numeric_text fstr (PStr t))"
proof (cases "fst (parse_numeric_text fstr (PStr t))")
  case None
  then have "parse_numeric_text fstr (PStr t) = (None, False)"
    using assms(2) by (cases "parse_numeric_text fstr (PStr t)") simp
  moreover have "parse_numeric_text fstr (PStr s) = (None, False)" using assms(1) None by simp
  ultimately show ?thesis by (simp add: convert_numeric_text_def)
next
  case (Some x)
  then have "parse_numeric_text fstr (PStr t) = (Some x, False)"
    using assms(2) by (cases "parse_numeric_text fstr (PStr t)") simp
  moreover have "parse_numeric_text fstr (PStr s) = (Some x, True)" using assms(1) Some by simp
  ultimately show ?thesis
    by (cases "py_float_str x") (simp_all add: convert_numeric_text_def)
qed

lemma strip_signs_empty: "strip_signs [] = ([], False)"
  by code_simp

lemma parse_currency_text:
  assumes "\<forall>c \<in> set s. c < 0xA0 \<or> c \<in> {0x24, 0x20AC, 0xA3, 0xA5, 0x20BD, 0x20B1, 0x20B9}"
    and "strip s = s"
    and "strip (filter (\<lambda>c. c \<notin> {0x24, 0x20AC, 0xA3, 0xA5, 0x20BD, 0x20B1, 0x20B9}) s) =
         filter (\<lambda>c. c \<notin> {0x24, 0x20AC, 0xA3, 0xA5, 0x20BD, 0x20B1, 0x20B9}) s"
  shows "parse_numeric_text fstr (PStr s) =
         parse_numeric_text fstr
           (PStr (filter (\<lambda>c. c \<notin> {0x24, 0x20AC, 0xA3, 0xA5, 0x20BD, 0x20B1, 0x20B9}) s))"
proof (cases "s = []")
  case True
  then show ?thesis by simp
next
  case False
  let ?f = "filter (\<lambda>c. c \<notin> {0x24, 0x20AC, 0xA3, 0xA5, 0x20BD, 0x20B1, 0x20B9}) s"
  have cs: "coerce_to_string fstr (PStr s) = Some s"
    using False assms(2) by (simp add: coerce_to_string_text)
  have bs: "before_signs s = ?f" using assms(1) by (rule before_signs_currency)
  obtain c n where sg: "strip_signs ?f = (c, n)" by (cases "strip_signs ?f")
  have ps: "parse_numeric_text fstr (PStr s) =
     (let cleaned = replace_char 0x27 [] (collapse_dots (resolve_separators (replace_char 0x20 [] c)))
      in case py_float_str cleaned of None \<Rightarrow> (None, False) | Some x \<Rightarrow> (Some cleaned, n))"
    using parse_by_signs [OF cs] sg bs by simp
  show ?thesis
  proof (cases "?f = []")
    case True
    then have "coerce_to_string fstr (PStr ?f) = None" by (simp add: coerce_to_string_text strip_def)
    then have pf: "parse_numeric_text fstr (PStr ?f) =
     (let cleaned = replace_char 0x27 [] (collapse_dots (resolve_separators (replace_char 0x20 [] [])))
      in case py_float_str cleaned of None \<Rightarrow> (None, False) | Some x \<Rightarrow> (Some cleaned, False))"
      by (rule parse_empty_signs)
    have cn: "c = []" "n = False" using sg True strip_signs_empty by simp_all
    show ?thesis unfolding ps pf cn ..
  next
    case nonempty: False
    have cf: "coerce_to_string fstr (PStr ?f) = Some ?f"
      using nonempty assms(3) by (simp add: coerce_to_string_text)
    have "\<forall>c \<in> set ?f. c < 0xA0 \<and> c \<noteq> 0x24" using assms(1) by auto
    then have "before_signs ?f = ?f" by (rule before_signs_plain)
    then have "parse_numeric_text fstr (PStr ?f) =
     (let cleaned = replace_char 0x27 [] (collapse_dots (resolve_separators (replace_char 0x20 [] c)))
      in case py_float_str cleaned of None \<Rightarrow> (None, False) | Some x \<Rightarrow> (Some cleaned, n))"
      using parse_by_signs [OF cf] sg by simp
    then show ?thesis using ps by simp
  qed
qed

lemma parse_separators_both:
  assumes "coerce_to_string fstr v = Some text"
    and "before_separators text = (pre @ sep # post, neg)"
    and "sep = 0x2E \<or> sep = 0x2C"
    and "0x2E \<in> set (pre @ sep # post)" and "0x2C \<in> set (pre @ sep # post)"
    and "0x2E \<notin> set post" and "0x2C \<notin> set post"
  shows "parse_numeric_text fstr v =
     (let cleaned = replace_char 0x27 [] (filter (\<lambda>c. c \<noteq> 0x2E \<and> c \<noteq> 0x2C) pre @ 0x2E # post)
      in case py_float_str cleaned of None \<Rightarrow> (None, False) | Some x \<Rightarrow> (Some cleaned, neg))"
  unfolding parse_numeric_text_staged assms(1,2) option.case prod.case
    separators_both [OF assms(3-7)] ..

lemma parse_separators_single:
  assumes "coerce_to_string fstr v = Some text"
    and "before_separators text = (a @ 0x2C # b, neg)"
    and "0x2C \<notin> set a" and "0x2C \<notin> set b" and "0x2E \<notin> set a" and "0x2E \<notin> set b"
  shows "parse_numeric_text fstr v =
     (let cleaned = replace_char 0x27 [] (if length b \<le> 2 then a @ 0x2E # b else a @ b)
      in case py_float_str cleaned of None \<Rightarrow> (None, False) | Some x \<Rightarrow> (Some cleaned, neg))"
  unfolding parse_numeric_text_staged assms(1,2) option.case prod.case
    separators_single_comma [OF assms(3-6)] ..

subsection \<open>Sign detection\<close>

text \<open>
  C3. Write \<open>before_signs\<close> for the text on which the sign tests of
  \<open>_parse_numeric_text\<close> run (lines 50 to 64): the display string of the value
  after NFKC, without the no-break spaces and without the seven currency symbols
  \<open>$\<close> (U+0024), U+20AC, U+00A3, U+00A5, U+20BD, U+20B1 and U+20B9, wherever they
  stood. Let \<open>w\<close> be a value whose text \<open>u\<close> at the sign tests has no sign of its own:
  it starts with neither \<open>-\<close> nor \<open>+\<close>, does not end with \<open>-\<close> and is not
  parenthesized. Then \<open>w\<close> is not negative, and for every value \<open>v\<close>: if its text at
  the sign tests is \<open>(u)\<close>, \<open>u-\<close> or \<open>-u\<close>, the parser returns the cleaned text of
  \<open>w\<close>, negative; the tests run in that order on what the one before left, so
  that \<open>(u-)\<close> and \<open>-u-\<close> lose both marks and give the same; if it is \<open>+u\<close> or
  \<open>u\<close>, the parser returns what it returns for \<open>w\<close>. On the inputs themselves: for
  a text \<open>t\<close> below U+00A0 without \<open>$\<close>, without surrounding whitespace and without
  a sign of its own, \<open>t\<close> is not negative, \<open>+t\<close> parses as \<open>t\<close>, each of the five
  signed texts parses to the cleaned text of \<open>t\<close>, negative, and converts to the
  number of \<open>t\<close> negated; and a text of such characters and currency symbols
  parses as the text without the symbols. The sample texts \<open>(1.234,56)\<close>,
  \<open>1.234,56-\<close> and \<open>-1.234,56\<close> convert to -1234.56, U+20AC \<open>1.234,56\<close> and
  \<open>+1.234,56\<close> to 1234.56.
\<close>

theorem sign_detection:
  "(coerce_to_string fstr v = Some tv \<and> coerce_to_string fstr w = Some tw \<and>
    \<not> startswith 0x2D (before_signs tw) \<and> \<not> startswith 0x2B (before_signs tw) \<and>
    \<not> endswith 0x2D (before_signs tw) \<and>
    \<not> (startswith 0x28 (before_signs tw) \<and> endswith 0x29 (before_signs tw)) \<longrightarrow>
      snd (parse_numeric_text fstr w) = False \<and>
      (before_signs tv = 0x28 # before_signs tw @ [0x29] \<or>
       before_signs tv = before_signs tw @ [0x2D] \<or>
       before_signs tv = 0x2D # before_signs tw \<or>
       before_signs tv = 0x28 # before_signs tw @ [0x2D, 0x29] \<or>
       before_signs tv = 0x2D # before_signs tw @ [0x2D] \<longrightarrow>
         parse_numeric_text fstr v =
           (case fst (parse_numeric_text fstr w) of
              None \<Rightarrow> (None, False) | Some x \<Rightarrow> (Some x, True))) \<and>
      (before_signs tv = 0x2B # before_signs tw \<or> before_signs tv = before_signs tw \<longrightarrow>
         parse_numeric_text fstr v = parse_numeric_text fstr w)) \<and>
   before_signs tx =
     filter (\<lambda>c. c \<notin> {0x24, 0x20AC, 0xA3, 0xA5, 0x20BD, 0x20B1, 0x20B9})
       (replace_char 0xA0 [] (nfkc tx)) \<and>
   ((\<forall>c \<in> set t. c < 0xA0 \<and> c \<noteq> 0x24) \<and> strip t = t \<and>
    \<not> startswith 0x2D t \<and> \<not> startswith 0x2B t \<and> \<not> endswith 0x2D t \<and>
    \<not> (startswith 0x28 t \<and> endswith 0x29 t) \<longrightarrow>
      snd (parse_numeric_text fstr (PStr t)) = False \<and>
      parse_numeric_text fstr (PStr (0x2B # t)) = parse_numeric_text fstr (PStr t) \<and>
      (s = 0x28 # t @ [0x29] \<or> s = t @ [0x2D] \<or> s = 0x2D # t \<or>
       s = 0x28 # t @ [0x2D, 0x29] \<or> s = 0x2D # t @ [0x2D] \<longrightarrow>
         parse_numeric_text fstr (PStr s) =
           (case fst (parse_numeric_text fstr (PStr t)) of
              None \<Rightarrow> (None, False) | Some x \<Rightarrow> (Some x, True)) \<and>
         convert_numeric_text fstr (PStr s) =
           map_sum id (map_option fneg) (convert_numeric_text fstr (PStr t)))) \<and>
   ((\<forall>c \<in> set m. c < 0xA0 \<or> c \<in> {0x24, 0x20AC, 0xA3, 0xA5, 0x20BD, 0x20B1, 0x20B9}) \<and>
    strip m = m \<and>
    strip (filter (\<lambda>c. c \<notin> {0x24, 0x20AC, 0xA3, 0xA5, 0x20BD, 0x20B1, 0x20B9}) m) =
      filter (\<lambda>c. c \<notin> {0x24, 0x20AC, 0xA3, 0xA5, 0x20BD, 0x20B1, 0x20B9}) m \<longrightarrow>
      parse_numeric_text fstr (PStr m) =
      parse_numeric_text fstr
        (PStr (filter (\<lambda>c. c \<notin> {0x24, 0x20AC, 0xA3, 0xA5, 0x20BD, 0x20B1, 0x20B9}) m))) \<and>
   convert_numeric_text fstr (PStr (ustr ''(1.234,56)'')) = Inr (Some (Fin (- (123456 / 100)))) \<and>
   convert_numeric_text fstr (PStr (0x20AC # ustr ''1.234,56'')) = Inr (Some (Fin (123456 / 100))) \<and>
   convert_numeric_text fstr (PStr (ustr ''1.234,56-'')) = Inr (Some (Fin (- (123456 / 100)))) \<and>
   convert_numeric_text fstr (PStr (ustr ''-1.234,56'')) = Inr (Some (Fin (- (123456 / 100)))) \<and>
   convert_numeric_text fstr (PStr (ustr ''+1.234,56'')) = Inr (Some (Fin (123456 / 100)))"
proof (intro conjI impI)
  show "convert_numeric_text fstr (PStr (ustr ''(1.234,56)'')) = Inr (Some (Fin (- (123456 / 100))))"
    by code_simp
  show "convert_numeric_text fstr (PStr (0x20AC # ustr ''1.234,56'')) = Inr (Some (Fin (123456 / 100)))"
    by code_simp
  show "convert_numeric_text fstr (PStr (ustr ''1.234,56-'')) = Inr (Some (Fin (- (123456 / 100))))"
    by code_simp
  show "convert_numeric_text fstr (PStr (ustr ''-1.234,56'')) = Inr (Some (Fin (- (123456 / 100))))"
    by code_simp
  show "convert_numeric_text fstr (PStr (ustr ''+1.234,56'')) = Inr (Some (Fin (123456 / 100)))"
    by code_simp
  show "before_signs tx =
     filter (\<lambda>c. c \<notin> {0x24, 0x20AC, 0xA3, 0xA5, 0x20BD, 0x20B1, 0x20B9})
       (replace_char 0xA0 [] (nfkc tx))"
    by (rule before_signs_filter)
next
  assume a: "coerce_to_string fstr v = Some tv \<and> coerce_to_string fstr w = Some tw \<and>
    \<not> startswith 0x2D (before_signs tw) \<and> \<not> startswith 0x2B (before_signs tw) \<and>
    \<not> endswith 0x2D (before_signs tw) \<and>
    \<not> (startswith 0x28 (before_signs tw) \<and> endswith 0x29 (before_signs tw))"
  then have h: "coerce_to_string fstr v = Some tv" "coerce_to_string fstr w = Some tw"
    "\<not> startswith 0x2D (before_signs tw)" "\<not> startswith 0x2B (before_signs tw)"
    "\<not> endswith 0x2D (before_signs tw)"
    "\<not> (startswith 0x28 (before_signs tw) \<and> endswith 0x29 (before_signs tw))"
    by blast+
  show "snd (parse_numeric_text fstr w) = False"
    by (rule parse_signs_general(1) [OF h])
  {
    assume "before_signs tv = 0x28 # before_signs tw @ [0x29] \<or>
       before_signs tv = before_signs tw @ [0x2D] \<or>
       before_signs tv = 0x2D # before_signs tw \<or>
       before_signs tv = 0x28 # before_signs tw @ [0x2D, 0x29] \<or>
       before_signs tv = 0x2D # before_signs tw @ [0x2D]"
    then show "parse_numeric_text fstr v =
           (case fst (parse_numeric_text fstr w) of
              None \<Rightarrow> (None, False) | Some x \<Rightarrow> (Some x, True))"
      by (rule parse_signs_general(2) [OF h])
  }
  {
    assume "before_signs tv = 0x2B # before_signs tw \<or> before_signs tv = before_signs tw"
    then show "parse_numeric_text fstr v = parse_numeric_text fstr w"
      by (rule parse_signs_general(3) [OF h])
  }
next
  assume a: "(\<forall>c \<in> set t. c < 0xA0 \<and> c \<noteq> 0x24) \<and> strip t = t \<and>
    \<not> startswith 0x2D t \<and> \<not> startswith 0x2B t \<and> \<not> endswith 0x2D t \<and>
    \<not> (startswith 0x28 t \<and> endswith 0x29 t)"
  then have h: "\<forall>c \<in> set t. c < 0xA0 \<and> c \<noteq> 0x24" "strip t = t"
    "\<not> startswith 0x2D t" "\<not> startswith 0x2B t" "\<not> endswith 0x2D t"
    "\<not> (startswith 0x28 t \<and> endswith 0x29 t)"
    by blast+
  show f: "snd (parse_numeric_text fstr (PStr t)) = False"
    by (rule parse_plus_text(2) [OF h])
  show "parse_numeric_text fstr (PStr (0x2B # t)) = parse_numeric_text fstr (PStr t)"
    by (rule parse_plus_text(1) [OF h])
  assume "s = 0x28 # t @ [0x29] \<or> s = t @ [0x2D] \<or> s = 0x2D # t \<or>
       s = 0x28 # t @ [0x2D, 0x29] \<or> s = 0x2D # t @ [0x2D]"
  then show p: "parse_numeric_text fstr (PStr s) =
           (case fst (parse_numeric_text fstr (PStr t)) of
              None \<Rightarrow> (None, False) | Some x \<Rightarrow> (Some x, True))"
    by (rule parse_negative_text [OF h])
  show "convert_numeric_text fstr (PStr s) =
           map_sum id (map_option fneg) (convert_numeric_text fstr (PStr t))"
    by (rule convert_negated_text [OF p f])
next
  assume "(\<forall>c \<in> set m. c < 0xA0 \<or> c \<in> {0x24, 0x20AC, 0xA3, 0xA5, 0x20BD, 0x20B1, 0x20B9}) \<and>
    strip m = m \<and>
    strip (filter (\<lambda>c. c \<notin> {0x24, 0x20AC, 0xA3, 0xA5, 0x20BD, 0x20B1, 0x20B9}) m) =
      filter (\<lambda>c. c \<notin> {0x24, 0x20AC, 0xA3, 0xA5, 0x20BD, 0x20B1, 0x20B9}) m"
  then show "parse_numeric_text fstr (PStr m) =
      parse_numeric_text fstr
        (PStr (filter (\<lambda>c. c \<notin> {0x24, 0x20AC, 0xA3, 0xA5, 0x20BD, 0x20B1, 0x20B9}) m))"
    using parse_currency_text [of m fstr] by blast
qed

theorem sign_detection_witness:
  "parse_numeric_text (\<lambda>f. []) (PStr (ustr ''$12-'')) = (Some (ustr ''12''), True) \<and>
   parse_numeric_text (\<lambda>f. []) (PStr (ustr ''-1,5'')) = (Some (ustr ''1.5''), True) \<and>
   convert_numeric_text (\<lambda>f. []) (PStr (ustr ''-1,5'')) = Inr (Some (Fin (- (15 / 10)))) \<and>
   parse_numeric_text (\<lambda>f. []) (PStr (ustr ''1,5'' @ [0x20AC])) = (Some (ustr ''1.5''), False)"
proof -
  let ?f = "\<lambda>f::pyfloat. []::ustring"
  have c: "coerce_to_string ?f (PStr (ustr ''$12-'')) = Some (ustr ''$12-'')"
    "coerce_to_string ?f (PStr (ustr ''12'')) = Some (ustr ''12'')"
    by code_simp+
  have n: "\<not> startswith 0x2D (before_signs (ustr ''12''))"
    "\<not> startswith 0x2B (before_signs (ustr ''12''))"
    "\<not> endswith 0x2D (before_signs (ustr ''12''))"
    "\<not> (startswith 0x28 (before_signs (ustr ''12'')) \<and> endswith 0x29 (before_signs (ustr ''12'')))"
    by code_simp+
  have b: "before_signs (ustr ''$12-'') = before_signs (ustr ''12'') @ [0x2D]"
    by code_simp
  have t: "\<forall>c \<in> set (ustr ''1,5''). c < 0xA0 \<and> c \<noteq> 0x24" "strip (ustr ''1,5'') = ustr ''1,5''"
    "\<not> startswith 0x2D (ustr ''1,5'')" "\<not> startswith 0x2B (ustr ''1,5'')"
    "\<not> endswith 0x2D (ustr ''1,5'')"
    "\<not> (startswith 0x28 (ustr ''1,5'') \<and> endswith 0x29 (ustr ''1,5''))"
    by code_simp+
  have s: "ustr ''-1,5'' = 0x2D # ustr ''1,5''" by (simp add: ustr_def)
  have m: "\<forall>c \<in> set (ustr ''1,5'' @ [0x20AC]).
      c < 0xA0 \<or> c \<in> {0x24, 0x20AC, 0xA3, 0xA5, 0x20BD, 0x20B1, 0x20B9}"
    "strip (ustr ''1,5'' @ [0x20AC]) = ustr ''1,5'' @ [0x20AC]"
    "strip (filter (\<lambda>c. c \<notin> {0x24, 0x20AC, 0xA3, 0xA5, 0x20BD, 0x20B1, 0x20B9}) (ustr ''1,5'' @ [0x20AC])) =
      filter (\<lambda>c. c \<notin> {0x24, 0x20AC, 0xA3, 0xA5, 0x20BD, 0x20B1, 0x20B9}) (ustr ''1,5'' @ [0x20AC])"
    by code_simp+
  have fm: "filter (\<lambda>c. c \<notin> {0x24, 0x20AC, 0xA3, 0xA5, 0x20BD, 0x20B1, 0x20B9}) (ustr ''1,5'' @ [0x20AC]) =
      ustr ''1,5''"
    by code_simp
  have p: "parse_numeric_text ?f (PStr (ustr ''12'')) = (Some (ustr ''12''), False)"
    "parse_numeric_text ?f (PStr (ustr ''1,5'')) = (Some (ustr ''1.5''), False)"
    "convert_numeric_text ?f (PStr (ustr ''1,5'')) = Inr (Some (Fin (15 / 10)))"
    by code_simp+
  note th = sign_detection [where fstr = ?f and v = "PStr (ustr ''$12-'')" and tv = "ustr ''$12-''"
      and w = "PStr (ustr ''12'')" and tw = "ustr ''12''" and t = "ustr ''1,5''"
      and s = "ustr ''-1,5''" and m = "ustr ''1,5'' @ [0x20AC]"]
  have 1: "parse_numeric_text ?f (PStr (ustr ''$12-'')) =
           (case fst (parse_numeric_text ?f (PStr (ustr ''12''))) of
              None \<Rightarrow> (None, False) | Some x \<Rightarrow> (Some x, True))"
    using th c n b by blast
  have 2: "parse_numeric_text ?f (PStr (ustr ''-1,5'')) =
           (case fst (parse_numeric_text ?f (PStr (ustr ''1,5''))) of
              None \<Rightarrow> (None, False) | Some x \<Rightarrow> (Some x, True)) \<and>
         convert_numeric_text ?f (PStr (ustr ''-1,5'')) =
           map_sum id (map_option fneg) (convert_numeric_text ?f (PStr (ustr ''1,5'')))"
    using th t s by blast
  have 3: "parse_numeric_text ?f (PStr (ustr ''1,5'' @ [0x20AC])) =
      parse_numeric_text ?f
        (PStr (filter (\<lambda>c. c \<notin> {0x24, 0x20AC, 0xA3, 0xA5, 0x20BD, 0x20B1, 0x20B9}) (ustr ''1,5'' @ [0x20AC])))"
    using th m by blast
  show ?thesis using 1 2 3 p fm by simp
qed

subsection \<open>Separator resolution\<close>

text \<open>
  C1, as stated, fails. The text \<open>1,23-\<close> holds one \<open>,\<close> and no \<open>.\<close>, and three
  characters, \<open>23-\<close>, follow the comma; yet the comma is not removed: it becomes
  the decimal point, and the text converts to -1.23. The sign is taken off before
  line 68 looks at the separators.
\<close>

theorem trailing_sign_changes_comma_rule:
  "count_list (ustr ''1,23-'') 0x2C = 1 \<and>
   0x2E \<notin> set (ustr ''1,23-'') \<and>
   split 0x2C (ustr ''1,23-'') ! 1 = ustr ''23-'' \<and>
   length (ustr ''23-'') = 3 \<and>
   parse_numeric_text (\<lambda>f. []) (PStr (ustr ''1,23-'')) = (Some (ustr ''1.23''), True) \<and>
   convert_numeric_text (\<lambda>f. []) (PStr (ustr ''1,23-'')) = Inr (Some (Fin (- (123 / 100))))"
  by code_simp

text \<open>
  C1, amended. The rule of lines 68 to 83 is about the text that reaches line 68,
  \<open>before_separators\<close>: the display string of the value after NFKC, without
  no-break spaces, currency symbols, sign marks and spaces. For every value: if
  that text holds both \<open>.\<close> (U+002E) and \<open>,\<close> (U+002C), split it at the rightmost of
  them into \<open>pre\<close>, the separator and \<open>post\<close>; the rightmost separator becomes the
  decimal point \<open>.\<close>, whichever of the two it was, and every separator before it is
  removed. If that text holds one \<open>,\<close> and no \<open>.\<close>, the comma becomes the decimal
  point when at most two characters follow it, and is removed otherwise. In both
  cases the parser then removes the apostrophes and returns the text, with the
  sign found before, if \<open>float\<close> accepts it. For an input text of digits and
  separators the result is that text, not negative, and \<open>convert_numeric_text\<close>
  returns the number it denotes. The four sample texts convert to 1234.56, 1234.56,
  1.23 and 1234.
\<close>

theorem separator_resolution:
  "(coerce_to_string fstr v = Some tx \<and> before_separators tx = (pre @ sep # post, neg) \<and>
    (sep = 0x2E \<or> sep = 0x2C) \<and> 0x2E \<in> set (pre @ sep # post) \<and> 0x2C \<in> set (pre @ sep # post) \<and>
    0x2E \<notin> set post \<and> 0x2C \<notin> set post
    \<longrightarrow> parse_numeric_text fstr v =
          (let cleaned = replace_char 0x27 []
                           (filter (\<lambda>c. c \<noteq> 0x2E \<and> c \<noteq> 0x2C) pre @ 0x2E # post)
           in case py_float_str cleaned of
                None \<Rightarrow> (None, False) | Some x \<Rightarrow> (Some cleaned, neg))) \<and>
   (coerce_to_string fstr v = Some tx \<and> before_separators tx = (a @ 0x2C # b, neg) \<and>
    0x2C \<notin> set a \<and> 0x2C \<notin> set b \<and> 0x2E \<notin> set a \<and> 0x2E \<notin> set b
    \<longrightarrow> parse_numeric_text fstr v =
          (let cleaned = replace_char 0x27 [] (if length b \<le> 2 then a @ 0x2E # b else a @ b)
           in case py_float_str cleaned of
                None \<Rightarrow> (None, False) | Some x \<Rightarrow> (Some cleaned, neg))) \<and>
   ((sep = 0x2E \<or> sep = 0x2C) \<and> 0x2E \<in> set (pre @ sep # post) \<and> 0x2C \<in> set (pre @ sep # post) \<and>
      (\<forall>c \<in> set pre. is_digit c \<or> c = 0x2E \<or> c = 0x2C) \<and> (\<forall>c \<in> set post. is_digit c) \<and>
      (filter is_digit pre \<noteq> [] \<or> post \<noteq> [])
    \<longrightarrow> parse_numeric_text fstr (PStr (pre @ sep # post)) =
            (Some (filter is_digit pre @ 0x2E # post), False) \<and>
          convert_numeric_text fstr (PStr (pre @ sep # post)) =
            Inr (Some (round_overflow (decimal_value (filter is_digit pre) post 0)))) \<and>
   ((\<forall>c \<in> set a. is_digit c) \<and> (\<forall>c \<in> set b. is_digit c) \<and> (a \<noteq> [] \<or> b \<noteq> [])
    \<longrightarrow> parse_numeric_text fstr (PStr (a @ 0x2C # b)) =
            (Some (if length b \<le> 2 then a @ 0x2E # b else a @ b), False) \<and>
          convert_numeric_text fstr (PStr (a @ 0x2C # b)) =
            Inr (Some (round_overflow
              (if length b \<le> 2 then decimal_value a b 0 else decimal_value (a @ b) [] 0)))) \<and>
   convert_numeric_text fstr (PStr (ustr ''1.234,56'')) = Inr (Some (Fin (123456 / 100))) \<and>
   convert_numeric_text fstr (PStr (ustr ''1,234.56'')) = Inr (Some (Fin (123456 / 100))) \<and>
   convert_numeric_text fstr (PStr (ustr ''1,23'')) = Inr (Some (Fin (123 / 100))) \<and>
   convert_numeric_text fstr (PStr (ustr ''1,234'')) = Inr (Some (Fin 1234))"
proof -
  have e1: "convert_numeric_text fstr (PStr (ustr ''1.234,56'')) = Inr (Some (Fin (123456 / 100)))"
    by code_simp
  have e2: "convert_numeric_text fstr (PStr (ustr ''1,234.56'')) = Inr (Some (Fin (123456 / 100)))"
    by code_simp
  have e3: "convert_numeric_text fstr (PStr (ustr ''1,23'')) = Inr (Some (Fin (123 / 100)))"
    by code_simp
  have e4: "convert_numeric_text fstr (PStr (ustr ''1,234'')) = Inr (Some (Fin 1234))"
    by code_simp
  have g1: "coerce_to_string fstr v = Some tx \<and> before_separators tx = (pre @ sep # post, neg) \<and>
    (sep = 0x2E \<or> sep = 0x2C) \<and> 0x2E \<in> set (pre @ sep # post) \<and> 0x2C \<in> set (pre @ sep # post) \<and>
    0x2E \<notin> set post \<and> 0x2C \<notin> set post
    \<longrightarrow> parse_numeric_text fstr v =
          (let cleaned = replace_char 0x27 []
                           (filter (\<lambda>c. c \<noteq> 0x2E \<and> c \<noteq> 0x2C) pre @ 0x2E # post)
           in case py_float_str cleaned of
                None \<Rightarrow> (None, False) | Some x \<Rightarrow> (Some cleaned, neg))"
    using parse_separators_both [of fstr v tx pre sep post neg] by blast
  have g2: "coerce_to_string fstr v = Some tx \<and> before_separators tx = (a @ 0x2C # b, neg) \<and>
    0x2C \<notin> set a \<and> 0x2C \<notin> set b \<and> 0x2E \<notin> set a \<and> 0x2E \<notin> set b
    \<longrightarrow> parse_numeric_text fstr v =
          (let cleaned = replace_char 0x27 [] (if length b \<le> 2 then a @ 0x2E # b else a @ b)
           in case py_float_str cleaned of
                None \<Rightarrow> (None, False) | Some x \<Rightarrow> (Some cleaned, neg))"
    using parse_separators_single [of fstr v tx a b neg] by blast
  have g3: "(sep = 0x2E \<or> sep = 0x2C) \<and> 0x2E \<in> set (pre @ sep # post) \<and> 0x2C \<in> set (pre @ sep # post) \<and>
      (\<forall>c \<in> set pre. is_digit c \<or> c = 0x2E \<or> c = 0x2C) \<and> (\<forall>c \<in> set post. is_digit c) \<and>
      (filter is_digit pre \<noteq> [] \<or> post \<noteq> [])
    \<longrightarrow> parse_numeric_text fstr (PStr (pre @ sep # post)) =
            (Some (filter is_digit pre @ 0x2E # post), False) \<and>
          convert_numeric_text fstr (PStr (pre @ sep # post)) =
            Inr (Some (round_overflow (decimal_value (filter is_digit pre) post 0)))"
    using parse_both_separators [of sep pre post fstr] by blast
  have g4: "(\<forall>c \<in> set a. is_digit c) \<and> (\<forall>c \<in> set b. is_digit c) \<and> (a \<noteq> [] \<or> b \<noteq> [])
    \<longrightarrow> parse_numeric_text fstr (PStr (a @ 0x2C # b)) =
            (Some (if length b \<le> 2 then a @ 0x2E # b else a @ b), False) \<and>
          convert_numeric_text fstr (PStr (a @ 0x2C # b)) =
            Inr (Some (round_overflow
              (if length b \<le> 2 then decimal_value a b 0 else decimal_value (a @ b) [] 0)))"
    using parse_single_comma [of a b fstr] by blast
  from g1 g2 g3 g4 e1 e2 e3 e4 show ?thesis by (intro conjI)
qed

theorem separator_resolution_witness:
  "parse_numeric_text (\<lambda>f. []) (PStr (ustr ''$ 1.234,567-'')) = (Some (ustr ''1234.567''), True) \<and>
   parse_numeric_text (\<lambda>f. []) (PStr (ustr ''1.234,567'')) = (Some (ustr ''1234.567''), False) \<and>
   parse_numeric_text (\<lambda>f. []) (PStr (ustr ''1,234'')) = (Some (ustr ''1234''), False)"
proof -
  let ?f = "\<lambda>f::pyfloat. []::ustring"
  have c: "coerce_to_string ?f (PStr (ustr ''$ 1.234,567-'')) = Some (ustr ''$ 1.234,567-'')"
    by code_simp
  have b: "before_separators (ustr ''$ 1.234,567-'') = (ustr ''1.234'' @ 0x2C # ustr ''567'', True)"
    by code_simp
  have h: "0x2E \<in> set (ustr ''1.234'' @ 0x2C # ustr ''567'')"
    "0x2C \<in> set (ustr ''1.234'' @ 0x2C # ustr ''567'')"
    "0x2E \<notin> set (ustr ''567'')" "0x2C \<notin> set (ustr ''567'')"
    "\<forall>c \<in> set (ustr ''1.234''). is_digit c \<or> c = 0x2E \<or> c = 0x2C"
    "\<forall>c \<in> set (ustr ''567''). is_digit c"
    "filter is_digit (ustr ''1.234'') \<noteq> [] \<or> ustr ''567'' \<noteq> []"
    "\<forall>c \<in> set (ustr ''1''). is_digit c" "\<forall>c \<in> set (ustr ''234''). is_digit c"
    "ustr ''1'' \<noteq> [] \<or> ustr ''234'' \<noteq> []"
    by code_simp+
  have k: "(let cleaned = replace_char 0x27 []
                           (filter (\<lambda>c. c \<noteq> 0x2E \<and> c \<noteq> 0x2C) (ustr ''1.234'') @ 0x2E # ustr ''567'')
           in case py_float_str cleaned of
                None \<Rightarrow> (None, False) | Some x \<Rightarrow> (Some cleaned, True)) =
         (Some (ustr ''1234.567''), True)"
    by code_simp
  have e: "filter is_digit (ustr ''1.234'') @ 0x2E # ustr ''567'' = ustr ''1234.567''"
    "ustr ''1.234'' @ 0x2C # ustr ''567'' = ustr ''1.234,567''"
    "(if length (ustr ''234'') \<le> 2 then ustr ''1'' @ 0x2E # ustr ''234'' else ustr ''1'' @ ustr ''234'') =
       ustr ''1234''"
    "ustr ''1'' @ 0x2C # ustr ''234'' = ustr ''1,234''"
    by code_simp+
  note th = separator_resolution [where fstr = ?f and v = "PStr (ustr ''$ 1.234,567-'')"
      and tx = "ustr ''$ 1.234,567-''" and pre = "ustr ''1.234''" and sep = "0x2C"
      and post = "ustr ''567''" and neg = True and a = "ustr ''1''" and b = "ustr ''234''"]
  have 1: "parse_numeric_text ?f (PStr (ustr ''$ 1.234,567-'')) =
          (let cleaned = replace_char 0x27 []
                           (filter (\<lambda>c. c \<noteq> 0x2E \<and> c \<noteq> 0x2C) (ustr ''1.234'') @ 0x2E # ustr ''567'')
           in case py_float_str cleaned of
                None \<Rightarrow> (None, False) | Some x \<Rightarrow> (Some cleaned, True))"
    using th c b h by blast
  have 2: "parse_numeric_text ?f (PStr (ustr ''1.234'' @ 0x2C # ustr ''567'')) =
            (Some (filter is_digit (ustr ''1.234'') @ 0x2E # ustr ''567''), False)"
    using th h by blast
  have 3: "parse_numeric_text ?f (PStr (ustr ''1'' @ 0x2C # ustr ''234'')) =
            (Some (if length (ustr ''234'') \<le> 2 then ustr ''1'' @ 0x2E # ustr ''234''
                   else ustr ''1'' @ ustr ''234''), False)"
    using th h by blast
  show ?thesis using 1 2 3 unfolding k e by blast
qed

section \<open>The column classifier\<close>

subsection \<open>Keyword search\<close>

lemma is_prefix_iff: "is_prefix sub s \<longleftrightarrow> (\<exists>q. s = sub @ q)"
  by (induction sub s rule: is_prefix.induct) auto

lemma contains_iff: "contains sub s \<longleftrightarrow> (\<exists>p q. s = p @ sub @ q)"
proof (induction s)
  case Nil
  then show ?case by auto
next
  case (Cons y ys)
  show ?case
  proof
    assume "contains sub (y # ys)"
    then consider "is_prefix sub (y # ys)" | "contains sub ys" by auto
    then show "\<exists>p q. y # ys = p @ sub @ q"
    proof cases
      case 1
      then obtain q where "y # ys = sub @ q" using is_prefix_iff by blast
      then have "y # ys = [] @ sub @ q" by simp
      then show ?thesis by blast
    next
      case 2
      then obtain p q where "ys = p @ sub @ q" using Cons.IH by blast
      then have "y # ys = (y # p) @ sub @ q" by simp
      then show ?thesis by blast
    qed
  next
    assume "\<exists>p q. y # ys = p @ sub @ q"
    then obtain p q where pq: "y # ys = p @ sub @ q" by blast
    show "contains sub (y # ys)"
    proof (cases p)
      case Nil
      then have "is_prefix sub (y # ys)" using pq is_prefix_iff by auto
      then show ?thesis by simp
    next
      case (Cons a p')
      then have "ys = p' @ sub @ q" using pq by simp
      then have "contains sub ys" using Cons.IH by blast
      then show ?thesis by simp
    qed
  qed
qed

lemma find_columns_loop_filter:
  "find_columns_loop nk columns matches =
     matches @ filter (\<lambda>column. list_ex (\<lambda>keyword. keyword \<noteq> [] \<and>
        contains keyword (normalize_column_name column)) nk) columns"
  by (induction columns arbitrary: matches) (simp_all add: Let_def)

lemma find_columns_filter:
  "find_columns_with_keywords columns keywords =
     filter (\<lambda>column. \<exists>keyword \<in> set keywords. normalize_column_name keyword \<noteq> [] \<and>
        (\<exists>p q. normalize_column_name column = p @ normalize_column_name keyword @ q)) columns"
  by (simp add: find_columns_with_keywords_def find_columns_loop_filter list_ex_iff contains_iff)

text \<open>
  C8. \<open>find_columns_with_keywords\<close> returns the columns, in their original order,
  for which some keyword has a non-empty normalized form that is a substring of the
  column's normalized name. Several matching keywords do not repeat a column: it
  occurs in the result no more often than among the columns given. When every
  keyword normalizes to the empty string, no column matches.
\<close>

theorem keyword_search:
  "find_columns_with_keywords columns keywords =
     filter (\<lambda>column. \<exists>keyword \<in> set keywords. normalize_column_name keyword \<noteq> [] \<and>
        (\<exists>p q. normalize_column_name column = p @ normalize_column_name keyword @ q)) columns \<and>
   (\<forall>column. count_list (find_columns_with_keywords columns keywords) column \<le> count_list columns column) \<and>
   ((\<forall>keyword \<in> set keywords. normalize_column_name keyword = []) \<longrightarrow>
      find_columns_with_keywords columns keywords = [])"
proof -
  have "count_list (filter P xs) x \<le> count_list xs x" for P and xs :: "pyval list" and x
    by (induction xs) auto
  then show ?thesis
    unfolding find_columns_filter by auto
qed

theorem keyword_search_witness:
  "find_columns_with_keywords
     [PStr (ustr ''Fecha de Liberaci'' @ [0xF3] @ ustr ''n''), PStr (ustr ''monto''), PInt 3, PStr (ustr ''FECHA'')]
     [PStr (ustr ''fecha''), PStr (ustr ''liberacion''), PStr (ustr '' '')]
   = [PStr (ustr ''Fecha de Liberaci'' @ [0xF3] @ ustr ''n''), PStr (ustr ''FECHA'')] \<and>
   find_columns_with_keywords [PStr (ustr ''monto'')] [PStr (ustr '' ''), PInt 1] = []"
proof -
  have n: "\<forall>keyword \<in> set [PStr (ustr '' ''), PInt 1]. normalize_column_name keyword = []"
    by code_simp
  have "find_columns_with_keywords
     [PStr (ustr ''Fecha de Liberaci'' @ [0xF3] @ ustr ''n''), PStr (ustr ''monto''), PInt 3, PStr (ustr ''FECHA'')]
     [PStr (ustr ''fecha''), PStr (ustr ''liberacion''), PStr (ustr '' '')]
   = [PStr (ustr ''Fecha de Liberaci'' @ [0xF3] @ ustr ''n''), PStr (ustr ''FECHA'')]"
    by code_simp
  then show ?thesis
    using n keyword_search [of "[PStr (ustr ''monto'')]" "[PStr (ustr '' ''), PInt 1]"] by blast
qed

section \<open>The text normalizer\<close>

text \<open>
  What \<open>normalize_column_name\<close> returns holds no code point that has a
  decomposition and no combining mark, so normalising it again can only trim or
  lowercase it.
\<close>

lemma compat_outputs:
  "list_all (\<lambda>(k, d). list_all (\<lambda>x. map_of compat_table x = None \<and> map_of canon_table x = None) d) compat_table"
  by code_simp

lemma canon_outputs:
  "list_all (\<lambda>(k, d). list_all (\<lambda>x. map_of compat_table x = None \<and> map_of canon_table x = None) d) canon_table"
  by code_simp

lemma nfkd_char_outputs:
  assumes "x \<in> set (nfkd_char c)"
  shows "map_of compat_table x = None \<and> map_of canon_table x = None"
proof (cases "map_of compat_table c")
  case (Some d)
  then have "(c, d) \<in> set compat_table" by (rule map_of_SomeD)
  moreover have "x \<in> set d" using assms Some by (simp add: nfkd_char_def)
  ultimately show ?thesis using compat_outputs by (auto simp: list_all_iff)
next
  case None
  show ?thesis
  proof (cases "map_of canon_table c")
    case (Some d)
    then have "(c, d) \<in> set canon_table" by (rule map_of_SomeD)
    moreover have "x \<in> set d" using assms Some None by (simp add: nfkd_char_def)
    ultimately show ?thesis using canon_outputs by (auto simp: list_all_iff)
  next
    case None2: None
    then have "x = c" using assms None by (simp add: nfkd_char_def)
    then show ?thesis using None None2 by simp
  qed
qed

lemma normalize_outputs:
  assumes "x \<in> set (normalize_column_name v)"
  shows "map_of compat_table x = None \<and> map_of canon_table x = None \<and> combining x = 0"
proof (cases v)
  case (PStr s)
  then obtain c where "x \<in> set (nfkd_char c)" and "combining x = 0"
    using assms by (auto simp: normalize_column_name_def nfkd_def)
  then show ?thesis using nfkd_char_outputs by blast
qed (use assms in \<open>simp_all add: normalize_column_name_def\<close>)

lemma nfkd_fixed: "\<forall>x \<in> set t. map_of compat_table x = None \<and> map_of canon_table x = None \<Longrightarrow> nfkd t = t"
  by (induction t) (simp_all add: nfkd_def nfkd_char_def)

lemma normalize_of_normalized:
  assumes "t = normalize_column_name v" and "strip t = t" and "lower t = t"
  shows "normalize_column_name (PStr t) = t"
proof -
  have "nfkd t = t" using assms(1) normalize_outputs by (intro nfkd_fixed) blast
  moreover have "filter (\<lambda>char. combining char = 0) t = t"
    using assms(1) normalize_outputs by (intro filter_True) blast
  ultimately show ?thesis using assms(2,3) by (simp add: normalize_column_name_def)
qed

subsection \<open>Monetary columns\<close>

lemma accent_keys: "map_of canon_table 0xF3 \<noteq> None"
  by code_simp

lemma normalize_no_accent: "0xF3 \<notin> set (normalize_column_name v)"
  using normalize_outputs [of "0xF3" v] accent_keys by blast

lemma is_money_column_iff:
  "is_money_column col \<longleftrightarrow>
     normalize_column_name col \<in> {ustr ''valor de la compra'', ustr ''comision mas iva'',
        ustr ''monto neto de operacion'', ustr ''impuestos cobrados por retenciones iibb''}"
proof -
  have "normalize_column_name col \<noteq> ustr ''comisi'' @ [0xF3] @ ustr ''n m'' @ [0xE1] @ ustr ''s iva''"
    using normalize_no_accent [of col] by auto
  moreover have "normalize_column_name col \<noteq> ustr ''monto neto de operaci'' @ [0xF3] @ ustr ''n''"
    using normalize_no_accent [of col] by auto
  ultimately show ?thesis by (auto simp: is_money_column_def money_col_targets_def)
qed

text \<open>
  C9. A column gets the currency format exactly when its normalized name is equal
  to one of the target phrases. The two accented entries of \<open>money_col_targets\<close> can
  never be equal to a normalized name, so the phrases that count are the four
  unaccented ones. \<open>Monto Neto de Operacion\<close> qualifies, with or without the accent;
  \<open>valor de compra extra\<close> does not, although \<open>valor de compra\<close> is a substring of it,
  and neither does \<open>valor de la compra extra\<close>, although the target
  \<open>valor de la compra\<close> is a substring of it.
\<close>

theorem monetary_exact_match:
  "is_money_column col = (normalize_column_name col \<in> set money_col_targets) \<and>
   (is_money_column col \<longleftrightarrow>
     normalize_column_name col \<in> {ustr ''valor de la compra'', ustr ''comision mas iva'',
        ustr ''monto neto de operacion'', ustr ''impuestos cobrados por retenciones iibb''}) \<and>
   is_money_column (PStr (ustr ''Monto Neto de Operacion'')) \<and>
   is_money_column (PStr (ustr ''Monto Neto de Operaci'' @ [0xF3] @ ustr ''n'')) \<and>
   \<not> is_money_column (PStr (ustr ''valor de compra extra'')) \<and>
   contains (ustr ''valor de compra'') (normalize_column_name (PStr (ustr ''valor de compra extra''))) \<and>
   \<not> is_money_column (PStr (ustr ''valor de la compra extra'')) \<and>
   contains (ustr ''valor de la compra'') (normalize_column_name (PStr (ustr ''valor de la compra extra'')))"
proof -
  have "is_money_column (PStr (ustr ''Monto Neto de Operacion''))" by code_simp
  moreover have "is_money_column (PStr (ustr ''Monto Neto de Operaci'' @ [0xF3] @ ustr ''n''))" by code_simp
  moreover have "\<not> is_money_column (PStr (ustr ''valor de compra extra''))" by code_simp
  moreover have "contains (ustr ''valor de compra'') (normalize_column_name (PStr (ustr ''valor de compra extra'')))"
    by code_simp
  moreover have "\<not> is_money_column (PStr (ustr ''valor de la compra extra''))" by code_simp
  moreover have "contains (ustr ''valor de la compra'') (normalize_column_name (PStr (ustr ''valor de la compra extra'')))"
    by code_simp
  ultimately show ?thesis using is_money_column_iff [of col] is_money_column_def [of col] by blast
qed

subsection \<open>Normalising twice\<close>

lemma dropWhile_fixed: "xs = [] \<or> \<not> P (hd xs) \<Longrightarrow> dropWhile P xs = xs"
  by (cases xs) auto

lemma dropWhile_head: "dropWhile P xs = [] \<or> \<not> P (hd (dropWhile P xs))"
  using hd_dropWhile [of P xs] by blast

lemma rev_dropWhile_rev_head:
  assumes "u \<noteq> []" and "\<not> P (hd u)"
  shows "rev (dropWhile P (rev u)) \<noteq> [] \<and> hd (rev (dropWhile P (rev u))) = hd u"
proof -
  obtain x u' where u: "u = x # u'" using assms(1) by (cases u) auto
  then have nx: "\<not> P x" using assms(2) by simp
  have "dropWhile P (rev u' @ [x]) = dropWhile P (rev u') @ [x]"
    using nx by (simp add: dropWhile_append)
  then show ?thesis using u by simp
qed

lemma strip_idem: "strip (strip s) = strip s"
proof -
  let ?u = "dropWhile isspace s"
  let ?w = "rev (dropWhile isspace (rev ?u))"
  have w: "strip s = ?w" by (simp add: strip_def)
  have 1: "dropWhile isspace ?w = ?w"
  proof (cases "?u = []")
    case True
    then have "?w = []" by (simp only: rev.simps dropWhile.simps)
    then show ?thesis by (metis dropWhile.simps(1))
  next
    case False
    then have "\<not> isspace (hd ?u)" using dropWhile_head [of isspace s] by blast
    with False have "?w \<noteq> [] \<and> hd ?w = hd ?u"
      using rev_dropWhile_rev_head [of ?u isspace] by blast
    with \<open>\<not> isspace (hd ?u)\<close> show ?thesis
      by (intro dropWhile_fixed) simp
  qed
  have 2: "dropWhile isspace (rev ?w) = rev ?w" by simp
  show ?thesis unfolding w using 1 2 by (simp add: strip_def)
qed

lemma set_strip: "set (strip s) \<subseteq> set s"
proof -
  have "set (dropWhile isspace (rev (dropWhile isspace s))) \<subseteq> set (rev (dropWhile isspace s))"
    by (rule set_dropWhileD [THEN subsetI])
  also have "\<dots> \<subseteq> set s" using set_dropWhileD by fastforce
  finally show ?thesis by (simp add: strip_def)
qed

lemma dropWhile_map_cong:
  "\<forall>x \<in> set xs. P (h x) = P x \<Longrightarrow> dropWhile P (map h xs) = map h (dropWhile P xs)"
  by (induction xs) auto

lemma strip_map:
  assumes "\<forall>x \<in> set u. isspace (h x) = isspace x"
  shows "strip (map h u) = map h (strip u)"
proof -
  have 1: "dropWhile isspace (map h u) = map h (dropWhile isspace u)"
    using assms by (rule dropWhile_map_cong)
  have "\<forall>x \<in> set (rev (dropWhile isspace u)). isspace (h x) = isspace x"
    using assms set_dropWhileD by fastforce
  then have 2: "dropWhile isspace (map h (rev (dropWhile isspace u))) =
      map h (dropWhile isspace (rev (dropWhile isspace u)))"
    by (rule dropWhile_map_cong)
  show ?thesis unfolding strip_def 1 rev_map 2 ..
qed

text \<open>One code point through lowercasing, decomposition and the removal of marks.\<close>

lemma letters_pointwise:
  "list_all (\<lambda>c. case filter (\<lambda>x. combining x = 0) (nfkd_char (lower_char c)) of
        [x] \<Rightarrow> isspace x = isspace c \<and> lower_char x = x
      | _ \<Rightarrow> False) ([0..0x7F] @ [0xC0..0xFF])"
  by code_simp

lemma normalize_as_concat:
  "normalize_column_name (PStr s) =
     concat (map (\<lambda>c. filter (\<lambda>x. combining x = 0) (nfkd_char (lower_char c))) (strip s))"
  by (simp add: normalize_column_name_def nfkd_def lower_def filter_concat comp_def)

lemma concat_singletons:
  "\<forall>x \<in> set xs. g x = [h x] \<Longrightarrow> concat (map g xs) = map h xs"
  by (induction xs) auto

lemma normalize_letters_idem:
  assumes "\<forall>c \<in> set s. (0 \<le> c \<and> c < 0x80) \<or> (0xC0 \<le> c \<and> c \<le> 0xFF)"
  shows "normalize_column_name (PStr (normalize_column_name (PStr s))) = normalize_column_name (PStr s)"
proof -
  let ?g = "\<lambda>c. filter (\<lambda>x. combining x = 0) (nfkd_char (lower_char c))"
  let ?h = "\<lambda>c. hd (?g c)"
  let ?u = "strip s"
  have pt: "?g c = [?h c] \<and> isspace (?h c) = isspace c \<and> lower_char (?h c) = ?h c"
    if "c \<in> set s" for c
  proof -
    have "c \<in> {0..0x7F} \<union> {0xC0..0xFF}" using assms that by auto
    then have "c \<in> set ([0..0x7F] @ [0xC0..0xFF])" by (simp only: set_append set_upto)
    then have "case ?g c of [x] \<Rightarrow> isspace x = isspace c \<and> lower_char x = x | _ \<Rightarrow> False"
      using letters_pointwise unfolding list_all_iff by blast
    then show ?thesis by (auto split: list.splits)
  qed
  have sub: "set ?u \<subseteq> set s" by (rule set_strip)
  have t: "normalize_column_name (PStr s) = map ?h ?u"
    unfolding normalize_as_concat using pt sub by (intro concat_singletons) blast
  have "strip (map ?h ?u) = map ?h (strip ?u)"
    using pt sub by (intro strip_map) blast
  then have st: "strip (map ?h ?u) = map ?h ?u" by (simp add: strip_idem)
  have lo: "lower (map ?h ?u) = map ?h ?u"
    unfolding lower_def map_map using pt sub by (intro map_cong) auto
  show ?thesis
    using normalize_of_normalized [OF refl, of "PStr s"] st lo unfolding t by simp
qed

lemma normalize_non_string: "(\<forall>s. name \<noteq> PStr s) \<Longrightarrow> normalize_column_name name = []"
  by (cases name) (simp_all add: normalize_column_name_def)

text \<open>
  C6, as stated, fails: the trade mark sign U+2122 is not changed by trimming or
  lowercasing, its decomposition is \<open>TM\<close>, and \<open>TM\<close> normalizes to \<open>tm\<close>.
\<close>

theorem normalize_not_idempotent:
  "normalize_column_name (PStr (normalize_column_name (PStr [0x2122]))) \<noteq>
   normalize_column_name (PStr [0x2122])"
  by code_simp

text \<open>
  C6, amended. \<open>normalize_column_name\<close> applied twice gives the same as applied once
  for every string of ASCII characters and Latin-1 letters (U+00C0 to U+00FF), and
  for every string of modelled code points whose first result is already trimmed
  and lowercase. For a label that is not a string the result is the empty string.
\<close>

theorem normalize_idempotent_on_letters:
  "((\<forall>c \<in> set s. (0 \<le> c \<and> c < 0x80) \<or> (0xC0 \<le> c \<and> c \<le> 0xFF)) \<longrightarrow>
      normalize_column_name (PStr (normalize_column_name (PStr s))) =
      normalize_column_name (PStr s)) \<and>
   ((\<forall>c \<in> set u. modelled c) \<and>
    strip (normalize_column_name (PStr u)) = normalize_column_name (PStr u) \<and>
    lower (normalize_column_name (PStr u)) = normalize_column_name (PStr u) \<longrightarrow>
      normalize_column_name (PStr (normalize_column_name (PStr u))) =
      normalize_column_name (PStr u)) \<and>
   ((\<forall>s. name \<noteq> PStr s) \<longrightarrow> normalize_column_name name = [])"
  using normalize_letters_idem [of s] normalize_of_normalized [OF refl, of "PStr u"]
    normalize_non_string [of name]
  by blast

theorem normalize_idempotent_on_letters_witness:
  "normalize_column_name (PStr (normalize_column_name
        (PStr (ustr '' Fecha de Liberaci'' @ [0xD3] @ ustr ''N '')))) =
     normalize_column_name (PStr (ustr '' Fecha de Liberaci'' @ [0xD3] @ ustr ''N '')) \<and>
   normalize_column_name (PStr (normalize_column_name (PStr (0x20AC # ustr '' Monto'')))) =
     normalize_column_name (PStr (0x20AC # ustr '' Monto'')) \<and>
   normalize_column_name (PInt 3) = []"
proof -
  have 1: "\<forall>c \<in> set (ustr '' Fecha de Liberaci'' @ [0xD3] @ ustr ''N '').
      (0 \<le> c \<and> c < 0x80) \<or> (0xC0 \<le> c \<and> c \<le> 0xFF)"
    by (simp add: ustr_def)
  have 2: "\<forall>c \<in> set (0x20AC # ustr '' Monto''). modelled c"
    by (simp add: ustr_def modelled_def)
  have 3: "strip (normalize_column_name (PStr (0x20AC # ustr '' Monto''))) =
        normalize_column_name (PStr (0x20AC # ustr '' Monto''))"
    "lower (normalize_column_name (PStr (0x20AC # ustr '' Monto''))) =
        normalize_column_name (PStr (0x20AC # ustr '' Monto''))"
    by code_simp+
  have 4: "\<forall>s. PInt 3 \<noteq> PStr s" by simp
  show ?thesis
    using 1 2 3 4 normalize_idempotent_on_letters
      [of "ustr '' Fecha de Liberaci'' @ [0xD3] @ ustr ''N ''" "0x20AC # ustr '' Monto''" "PInt 3"]
    by blast
qed

section \<open>The table converter\<close>

lemma convert_raises_iff:
  "convert_numeric_text fstr v = Inl e \<longleftrightarrow>
     e = OverflowError \<and> (\<exists>n. v = PInt n \<and> float_max_bound \<le> \<bar>n\<bar>)"
  by (cases v; cases e)
    (auto simp: convert_numeric_text_def py_float_int_def split: prod.splits option.splits)

lemma convert_returns:
  "(\<forall>n. v = PInt n \<longrightarrow> \<bar>n\<bar> < float_max_bound) \<Longrightarrow> \<exists>r. convert_numeric_text fstr v = Inr r"
proof -
  assume a: "\<forall>n. v = PInt n \<longrightarrow> \<bar>n\<bar> < float_max_bound"
  have "convert_numeric_text fstr v \<noteq> Inl e" for e
    using a convert_raises_iff [of fstr v e] by auto
  then show ?thesis by (cases "convert_numeric_text fstr v") auto
qed

lemma convert_numeric_text_cases:
  "convert_numeric_text fstr PNone = Inr None"
  "convert_numeric_text fstr (PFloat NaN) = Inr None"
  "f \<noteq> NaN \<Longrightarrow> convert_numeric_text fstr (PFloat f) = Inr (Some f)"
  "\<bar>n\<bar> < float_max_bound \<Longrightarrow> convert_numeric_text fstr (PInt n) = Inr (Some (Fin (of_int n)))"
  by (simp_all add: convert_numeric_text_def py_float_int_def)

lemma convert_numeric_text_bool: "convert_numeric_text fstr (PBool b) = Inr None"
proof -
  have "convert_numeric_text fstr (PBool True) = Inr None" by code_simp
  moreover have "convert_numeric_text fstr (PBool False) = Inr None" by code_simp
  ultimately show ?thesis by (cases b) simp_all
qed

text \<open>For a text, a \<open>bool\<close> or another object the result follows the parser.\<close>

lemma convert_numeric_text_text:
  assumes "v = PStr s \<or> v = PObj s \<or> v = PBool b"
  shows "convert_numeric_text fstr v =
     (case parse_numeric_text fstr v of
        (None, _) \<Rightarrow> Inr None
      | (Some cleaned, is_negative) \<Rightarrow>
          Inr (map_option (\<lambda>result. if is_negative then fneg result else result)
                 (py_float_str cleaned)))"
    and "fst (parse_numeric_text fstr v) = Some cleaned \<Longrightarrow> py_float_str cleaned \<noteq> None"
  using assms
  by (auto simp: convert_numeric_text_def parse_numeric_text_def Let_def
      split: prod.splits option.splits)

lemma map_convert_Inr:
  "map_convert fstr vs = Inr rs \<longleftrightarrow> list_all2 (\<lambda>v r. convert_numeric_text fstr v = Inr r) vs rs"
proof (induction vs arbitrary: rs)
  case Nil
  then show ?case by auto
next
  case (Cons v vs)
  show ?case
    by (cases rs) (auto simp: Cons.IH [symmetric] split: sum.splits)
qed

lemma map_convert_returns:
  "\<forall>v \<in> set vs. \<forall>n. v = PInt n \<longrightarrow> \<bar>n\<bar> < float_max_bound \<Longrightarrow> \<exists>rs. map_convert fstr vs = Inr rs"
proof (induction vs)
  case Nil
  then show ?case by simp
next
  case (Cons v vs)
  then obtain r where "convert_numeric_text fstr v = Inr r" using convert_returns [of v fstr] by auto
  moreover obtain rs where "map_convert fstr vs = Inr rs" using Cons by auto
  ultimately show ?case by simp
qed

lemma to_numeric_cells:
  assumes "map_convert fstr vs = Inr rs"
  shows "to_numeric rs =
     map (\<lambda>v. case convert_numeric_text fstr v of Inr (Some f) \<Rightarrow> PFloat f | _ \<Rightarrow> PFloat NaN) vs"
proof -
  have "list_all2 (\<lambda>v r. convert_numeric_text fstr v = Inr r) vs rs"
    using assms by (simp add: map_convert_Inr)
  then show ?thesis
    by (induction rule: list_all2_induct) (auto simp: to_numeric_def split: option.splits)
qed

text \<open>The gate of the loop body: the test that decides whether the column is converted.\<close>

lemma convert_column_unchanged:
  "convert_column fstr col = Inr (col', False) \<Longrightarrow> col' = col"
  by (auto simp: convert_column_def Let_def split: if_splits sum.splits)

lemma convert_column_converted:
  assumes "convert_column fstr col = Inr (col', True)"
  shows "dtype col \<noteq> NumericDtype \<and>
     (\<exists>rs. map_convert fstr (cells col) = Inr rs \<and>
        col' = col\<lparr>dtype := NumericDtype, cells := to_numeric rs\<rparr>)"
  using assms by (auto simp: convert_column_def Let_def split: if_splits sum.splits)

lemma convert_column_label: "convert_column fstr col = Inr (col', b) \<Longrightarrow> label col' = label col"
  by (cases b) (auto dest: convert_column_unchanged convert_column_converted)

lemma convert_column_changed_iff: "convert_column fstr col = Inr (col', b) \<Longrightarrow> col' \<noteq> col \<longleftrightarrow> b"
proof (cases b)
  case True
  assume "convert_column fstr col = Inr (col', b)"
  then have "dtype col \<noteq> NumericDtype" "dtype col' = NumericDtype"
    using True convert_column_converted [of fstr col col'] by auto
  then show ?thesis using True by auto
next
  case False
  assume "convert_column fstr col = Inr (col', b)"
  then show ?thesis using False convert_column_unchanged by auto
qed

lemma convert_column_gate:
  assumes "convert_column fstr col = Inr (col', b)"
  shows "b \<longleftrightarrow> dtype col \<noteq> NumericDtype \<and>
     (should_force_numeric (normalize_column_name (label col)) \<or>
      (dtype col = ObjectDtype \<or> dtype col = StringDtype) \<and>
      cleaned_non_null fstr (cells col) \<noteq> [] \<and>
      (\<forall>s \<in> set (cleaned_non_null fstr (cells col)). is_numeric_like fstr (PStr s)))"
proof -
  have "dropna (cells col) = [] \<Longrightarrow> cleaned_non_null fstr (cells col) = []"
    by (simp add: cleaned_non_null_def)
  then show ?thesis
    using assms
    by (auto simp: convert_column_def Let_def list_all_iff split: if_splits sum.splits)
qed

lemma convert_column_returns:
  "\<forall>v \<in> set (cells col). \<forall>n. v = PInt n \<longrightarrow> \<bar>n\<bar> < float_max_bound \<Longrightarrow>
   \<exists>r. convert_column fstr col = Inr r"
  using map_convert_returns [of "cells col" fstr]
  by (auto simp: convert_column_def Let_def split: sum.splits)

lemma distinct_count_list: "distinct xs \<longleftrightarrow> (\<forall>x \<in> set xs. count_list xs x \<le> 1)"
proof (induction xs)
  case Nil
  then show ?case by simp
next
  case (Cons a xs)
  have "count_list xs a = 0 \<longleftrightarrow> a \<notin> set xs" by (rule count_list_zero_iff)
  then show ?case using Cons by auto
qed

lemma convert_loop_Inr:
  "convert_loop fstr labels cols (done, rep) = Inr (df', report) \<longleftrightarrow>
     (\<forall>c \<in> set cols. count_list labels (label c) \<le> 1) \<and>
     (\<exists>rs. list_all2 (\<lambda>c r. convert_column fstr c = Inr r) cols rs \<and>
        df' = done @ map fst rs \<and> report = rep @ map (label \<circ> fst) (filter snd rs))"
proof (induction cols arbitrary: "done" rep)
  case Nil
  then show ?case by auto
next
  case (Cons c cols)
  show ?case
  proof (cases "1 < count_list labels (label c)")
    case True
    then show ?thesis by auto
  next
    case False
    show ?thesis
    proof (cases "convert_column fstr c")
      case (Inl e)
      then show ?thesis using False by (auto simp: list_all2_Cons1)
    next
      case (Inr r)
      obtain c' b where r: "r = (c', b)" by (cases r)
      have lab: "label c' = label c" using Inr r convert_column_label by blast
      show ?thesis
        unfolding list_all2_Cons1 using Inr r lab False
        by (auto simp: Cons.IH)
    qed
  qed
qed

lemma convert_loop_returns:
  "\<forall>c \<in> set cols. count_list labels (label c) \<le> 1 \<Longrightarrow>
   \<forall>c \<in> set cols. \<forall>v \<in> set (cells c). \<forall>n. v = PInt n \<longrightarrow> \<bar>n\<bar> < float_max_bound \<Longrightarrow>
   \<exists>r. convert_loop fstr labels cols st = Inr r"
proof (induction cols arbitrary: st)
  case Nil
  then show ?case by simp
next
  case (Cons c cols)
  obtain c' b where "convert_column fstr c = Inr (c', b)"
    using Cons.prems(2) convert_column_returns [of c fstr] by fastforce
  moreover have "\<not> 1 < count_list labels (label c)" using Cons.prems(1) by auto
  ultimately show ?case using Cons by (cases st) auto
qed

text \<open>The call returns only on a frame with distinct labels.\<close>

lemma frame_labels: "(\<forall>c \<in> set df. count_list (map label df) (label c) \<le> 1) \<longleftrightarrow> distinct (map label df)"
  unfolding distinct_count_list by simp

lemma convert_frame_Inr:
  "convert_text_columns_to_numbers fstr df = Inr (df', report) \<longleftrightarrow>
     distinct (map label df) \<and>
     (\<exists>rs. list_all2 (\<lambda>c r. convert_column fstr c = Inr r) df rs \<and>
        df' = map fst rs \<and> report = map (label \<circ> fst) (filter snd rs))"
  unfolding convert_text_columns_to_numbers_def convert_loop_Inr frame_labels by simp

lemma convert_frame_returns:
  "distinct (map label df) \<Longrightarrow>
   \<forall>c \<in> set df. \<forall>v \<in> set (cells c). \<forall>n. v = PInt n \<longrightarrow> \<bar>n\<bar> < float_max_bound \<Longrightarrow>
   \<exists>r. convert_text_columns_to_numbers fstr df = Inr r"
  unfolding convert_text_columns_to_numbers_def
  using convert_loop_returns [of df "map label df" fstr "([], [])"] frame_labels [of df] by blast

lemma report_membership:
  assumes "convert_text_columns_to_numbers fstr df = Inr (df', report)" and "i < length df"
  shows "\<exists>b. convert_column fstr (df ! i) = Inr (df' ! i, b) \<and>
           (b \<longleftrightarrow> label (df ! i) \<in> set report)"
proof -
  obtain rs where rs: "list_all2 (\<lambda>c r. convert_column fstr c = Inr r) df rs"
    and df': "df' = map fst rs" and rep: "report = map (label \<circ> fst) (filter snd rs)"
    and d: "distinct (map label df)"
    using assms(1) unfolding convert_frame_Inr by auto
  have len: "length rs = length df" using rs by (simp add: list_all2_lengthD)
  have at: "convert_column fstr (df ! j) = Inr (rs ! j)" if "j < length df" for j
    using rs that by (simp add: list_all2_conv_all_nth)
  have lab: "label (fst (rs ! j)) = label (df ! j)" if "j < length df" for j
    using at [OF that] convert_column_label [of fstr "df ! j" "fst (rs ! j)" "snd (rs ! j)"] by simp
  have 1: "convert_column fstr (df ! i) = Inr (df' ! i, snd (rs ! i))"
    using at [OF assms(2)] df' assms(2) len by simp
  have 2: "label (df ! i) \<in> set report" if "snd (rs ! i)"
  proof -
    have "rs ! i \<in> set rs" using assms(2) len by simp
    then have "rs ! i \<in> set (filter snd rs)" using that by simp
    then have "label (fst (rs ! i)) \<in> set report" unfolding rep by force
    then show ?thesis using lab [OF assms(2)] by simp
  qed
  have 3: "snd (rs ! i)" if m: "label (df ! i) \<in> set report"
  proof -
    from m obtain r where r: "r \<in> set rs" "snd r" "label (fst r) = label (df ! i)"
      unfolding rep by auto
    then obtain j where j: "j < length rs" "rs ! j = r" by (auto simp: in_set_conv_nth)
    then have "label (df ! j) = label (df ! i)" using lab [of j] len r by simp
    then have "map label df ! j = map label df ! i" using j len assms(2) by simp
    then have "j = i"
      using d j len assms(2) nth_eq_iff_index_eq [of "map label df" j i] by simp
    then show ?thesis using j r by simp
  qed
  show ?thesis using 1 2 3 by blast
qed

lemma should_force_numeric_iff:
  "should_force_numeric n \<longleftrightarrow> (\<exists>p q. n = p @ ustr ''id'' @ q)"
  by (simp add: should_force_numeric_def id_keywords_def contains_iff)

subsection \<open>Exceptions\<close>

text \<open>
  C5. \<open>convert_numeric_text\<close> does raise: for the \<open>int\<close> \<open>2 ** 1024\<close> the call
  \<open>float(text_value)\<close> of line 109, which no \<open>try\<close> encloses, raises \<open>OverflowError\<close>.
  An exception leaves the function exactly for an \<open>int\<close> of magnitude at least
  \<open>2^1024 - 2^970\<close>.
\<close>

theorem convert_raises_on_large_int:
  "convert_numeric_text fstr (PInt (2 ^ 1024)) = Inl OverflowError \<and>
   (convert_numeric_text fstr v = Inl OverflowError \<longleftrightarrow> (\<exists>n. v = PInt n \<and> float_max_bound \<le> \<bar>n\<bar>))"
proof -
  have "float_max_bound \<le> \<bar>2 ^ 1024\<bar>" by (simp add: float_max_bound_def)
  then show ?thesis using convert_raises_iff by blast
qed

subsection \<open>The report\<close>

text \<open>
  C7. When \<open>convert_text_columns_to_numbers\<close> returns, the frame has the same labels
  in the same order, the report lists the labels of exactly the columns that were
  replaced, in the order of the columns, and a column whose label is not in the
  report is the column it was, cells and dtype. It returns for every frame with
  distinct labels that holds no \<open>int\<close> of magnitude \<open>2^1024 - 2^970\<close> or more.
\<close>

theorem conversion_report:
  "(convert_text_columns_to_numbers fstr df = Inr (df', report) \<longrightarrow>
      map label df' = map label df \<and>
      report = map (label \<circ> fst) (filter (\<lambda>(col, col'). col' \<noteq> col) (zip df df')) \<and>
      (\<forall>i < length df. label (df ! i) \<notin> set report \<longrightarrow> df' ! i = df ! i)) \<and>
   (distinct (map label df) \<and>
    (\<forall>col \<in> set df. \<forall>v \<in> set (cells col). \<forall>n. v = PInt n \<longrightarrow> \<bar>n\<bar> < float_max_bound) \<longrightarrow>
      (\<exists>result. convert_text_columns_to_numbers fstr df = Inr result))"
proof (intro conjI impI)
  assume "distinct (map label df) \<and>
    (\<forall>col \<in> set df. \<forall>v \<in> set (cells col). \<forall>n. v = PInt n \<longrightarrow> \<bar>n\<bar> < float_max_bound)"
  then show "\<exists>result. convert_text_columns_to_numbers fstr df = Inr result"
    using convert_frame_returns [of df fstr] by blast
next
  assume "convert_text_columns_to_numbers fstr df = Inr (df', report)"
  then obtain rs where rs: "list_all2 (\<lambda>c r. convert_column fstr c = Inr r) df rs"
    and df': "df' = map fst rs" and rep: "report = map (label \<circ> fst) (filter snd rs)"
    unfolding convert_frame_Inr by auto
  have len: "length rs = length df" using rs by (simp add: list_all2_lengthD)
  have at: "convert_column fstr (df ! i) = Inr (rs ! i)" if "i < length df" for i
    using rs that by (simp add: list_all2_conv_all_nth)
  show "map label df' = map label df"
  proof (rule nth_equalityI)
    show "length (map label df') = length (map label df)" using len df' by simp
  next
    fix i assume "i < length (map label df')"
    then have i: "i < length df" using len df' by simp
    then have "label (fst (rs ! i)) = label (df ! i)"
      using at [OF i] convert_column_label [of fstr "df ! i" "fst (rs ! i)" "snd (rs ! i)"] by simp
    then show "map label df' ! i = map label df ! i" using i len df' by simp
  qed
  have "map (label \<circ> fst) (filter snd rs) =
        map (label \<circ> fst) (filter (\<lambda>(col, col'). col' \<noteq> col) (zip df (map fst rs)))"
    using rs
  proof (induction rule: list_all2_induct)
    case Nil
    then show ?case by simp
  next
    case (Cons c cs r rs)
    obtain c' b where r: "r = (c', b)" by (cases r)
    have "c' \<noteq> c \<longleftrightarrow> b" "label c' = label c"
      using Cons(1) r convert_column_changed_iff convert_column_label by blast+
    then show ?case using Cons r by auto
  qed
  then show "report = map (label \<circ> fst) (filter (\<lambda>(col, col'). col' \<noteq> col) (zip df df'))"
    using rep df' by simp
  show "\<forall>i < length df. label (df ! i) \<notin> set report \<longrightarrow> df' ! i = df ! i"
  proof (intro allI impI)
    fix i assume i: "i < length df" and n: "label (df ! i) \<notin> set report"
    obtain c' b where r: "rs ! i = (c', b)" by (cases "rs ! i")
    have "\<not> b"
    proof
      assume b
      moreover have "rs ! i \<in> set rs" using i len by simp
      ultimately have "rs ! i \<in> set (filter snd rs)" using r by simp
      then have "label c' \<in> set report" using rep r by force
      moreover have "label c' = label (df ! i)" using at [OF i] r convert_column_label by auto
      ultimately show False using n by simp
    qed
    then have "c' = df ! i" using at [OF i] r convert_column_unchanged by auto
    then show "df' ! i = df ! i" using df' r i len by simp
  qed
qed

theorem conversion_report_witness:
  "convert_text_columns_to_numbers (\<lambda>f. [])
     [\<lparr>label = PStr (ustr ''fecha''), dtype = ObjectDtype, cells = [PStr (ustr ''hoy''), PStr (ustr ''ayer'')]\<rparr>,
      \<lparr>label = PStr (ustr ''monto''), dtype = ObjectDtype, cells = [PStr (ustr ''$123''), PNone]\<rparr>,
      \<lparr>label = PStr (ustr ''id''), dtype = StringDtype, cells = [PStr (ustr ''x''), PStr (ustr ''7'')]\<rparr>] =
   Inr ([\<lparr>label = PStr (ustr ''fecha''), dtype = ObjectDtype, cells = [PStr (ustr ''hoy''), PStr (ustr ''ayer'')]\<rparr>,
      \<lparr>label = PStr (ustr ''monto''), dtype = NumericDtype, cells = [PFloat (Fin 123), PFloat NaN]\<rparr>,
      \<lparr>label = PStr (ustr ''id''), dtype = NumericDtype, cells = [PFloat NaN, PFloat (Fin 7)]\<rparr>],
        [PStr (ustr ''monto''), PStr (ustr ''id'')]) \<and>
   [PStr (ustr ''monto''), PStr (ustr ''id'')] =
     map (label \<circ> fst) (filter (\<lambda>(col, col'). col' \<noteq> col) (zip
       [\<lparr>label = PStr (ustr ''fecha''), dtype = ObjectDtype, cells = [PStr (ustr ''hoy''), PStr (ustr ''ayer'')]\<rparr>,
      \<lparr>label = PStr (ustr ''monto''), dtype = ObjectDtype, cells = [PStr (ustr ''$123''), PNone]\<rparr>,
      \<lparr>label = PStr (ustr ''id''), dtype = StringDtype, cells = [PStr (ustr ''x''), PStr (ustr ''7'')]\<rparr>]
       [\<lparr>label = PStr (ustr ''fecha''), dtype = ObjectDtype, cells = [PStr (ustr ''hoy''), PStr (ustr ''ayer'')]\<rparr>,
      \<lparr>label = PStr (ustr ''monto''), dtype = NumericDtype, cells = [PFloat (Fin 123), PFloat NaN]\<rparr>,
      \<lparr>label = PStr (ustr ''id''), dtype = NumericDtype, cells = [PFloat NaN, PFloat (Fin 7)]\<rparr>]))"
proof -
  let ?df = "[\<lparr>label = PStr (ustr ''fecha''), dtype = ObjectDtype, cells = [PStr (ustr ''hoy''), PStr (ustr ''ayer'')]\<rparr>,
      \<lparr>label = PStr (ustr ''monto''), dtype = ObjectDtype, cells = [PStr (ustr ''$123''), PNone]\<rparr>,
      \<lparr>label = PStr (ustr ''id''), dtype = StringDtype, cells = [PStr (ustr ''x''), PStr (ustr ''7'')]\<rparr>]"
  let ?df' = "[\<lparr>label = PStr (ustr ''fecha''), dtype = ObjectDtype, cells = [PStr (ustr ''hoy''), PStr (ustr ''ayer'')]\<rparr>,
      \<lparr>label = PStr (ustr ''monto''), dtype = NumericDtype, cells = [PFloat (Fin 123), PFloat NaN]\<rparr>,
      \<lparr>label = PStr (ustr ''id''), dtype = NumericDtype, cells = [PFloat NaN, PFloat (Fin 7)]\<rparr>]"
  let ?report = "[PStr (ustr ''monto''), PStr (ustr ''id'')]"
  have r: "convert_text_columns_to_numbers (\<lambda>f. []) ?df = Inr (?df', ?report)"
    by code_simp
  have d: "distinct (map label ?df)" by code_simp
  have n: "\<forall>col \<in> set ?df. \<forall>v \<in> set (cells col). \<forall>n. v = PInt n \<longrightarrow> \<bar>n\<bar> < float_max_bound"
    by simp
  have "?report = map (label \<circ> fst) (filter (\<lambda>(col, col'). col' \<noteq> col) (zip ?df ?df'))"
    using conversion_report [of "\<lambda>f. []" ?df ?df' ?report] r d n by blast
  then show ?thesis using r by blast
qed

subsection \<open>The all-or-nothing gate\<close>

text \<open>
  C2, as stated, fails: an \<open>object\<close> column \<open>monto\<close> whose only non-missing cell is
  blank has no cleaned display string at all, so every one of them is numeric-like,
  and the column is not converted.
\<close>

theorem blank_column_not_converted:
  "\<not> should_force_numeric (normalize_column_name (PStr (ustr ''monto''))) \<and>
   list_all (\<lambda>s. is_numeric_like (\<lambda>f. []) (PStr s))
     (cleaned_non_null (\<lambda>f. []) [PStr (ustr ''  ''), PNone]) \<and>
   convert_text_columns_to_numbers (\<lambda>f. [])
     [\<lparr>label = PStr (ustr ''monto''), dtype = ObjectDtype, cells = [PStr (ustr ''  ''), PNone]\<rparr>] =
   Inr ([\<lparr>label = PStr (ustr ''monto''), dtype = ObjectDtype, cells = [PStr (ustr ''  ''), PNone]\<rparr>], [])"
  by code_simp

text \<open>
  C2, amended. Take a frame on which the call returns, and a column whose
  normalized name does not contain \<open>id\<close>. The column is converted, and
  its label is in the report, exactly when its dtype is \<open>object\<close> or a string dtype,
  it has at least one cleaned non-missing display string, and every such string is
  numeric-like. If a single one is not numeric-like, the column is left as it was
  and its label is not in the report. The call returns for every frame with
  distinct labels that holds no \<open>int\<close> of magnitude \<open>2^1024 - 2^970\<close> or more; it
  raises on a repeated label, and on such an \<open>int\<close> in a column that is converted.
  The column \<open>monto\<close> with the cells \<open>$123\<close>, \<open>no aplicar\<close>, \<open>$456\<close> is left as it
  was.
\<close>

theorem all_or_nothing_gate:
  "(convert_text_columns_to_numbers fstr df = Inr (df', report) \<and>
    i < length df \<and> \<not> should_force_numeric (normalize_column_name (label (df ! i))) \<longrightarrow>
      ((label (df ! i) \<in> set report) =
         ((dtype (df ! i) = ObjectDtype \<or> dtype (df ! i) = StringDtype) \<and>
          cleaned_non_null fstr (cells (df ! i)) \<noteq> [] \<and>
          (\<forall>s \<in> set (cleaned_non_null fstr (cells (df ! i))). is_numeric_like fstr (PStr s)))) \<and>
      ((df' ! i \<noteq> df ! i) = (label (df ! i) \<in> set report)) \<and>
      ((\<exists>s \<in> set (cleaned_non_null fstr (cells (df ! i))). \<not> is_numeric_like fstr (PStr s)) \<longrightarrow>
         df' ! i = df ! i \<and> label (df ! i) \<notin> set report)) \<and>
   (distinct (map label df) \<and>
    (\<forall>col \<in> set df. \<forall>v \<in> set (cells col). \<forall>n. v = PInt n \<longrightarrow> \<bar>n\<bar> < float_max_bound) \<longrightarrow>
      (\<exists>result. convert_text_columns_to_numbers fstr df = Inr result)) \<and>
   convert_text_columns_to_numbers fstr
     [\<lparr>label = PStr (ustr ''monto''), dtype = ObjectDtype,
       cells = [PStr (ustr ''$123''), PStr (ustr ''no aplicar''), PStr (ustr ''$456'')]\<rparr>] =
   Inr ([\<lparr>label = PStr (ustr ''monto''), dtype = ObjectDtype,
       cells = [PStr (ustr ''$123''), PStr (ustr ''no aplicar''), PStr (ustr ''$456'')]\<rparr>], [])"
proof (intro conjI impI)
  show "convert_text_columns_to_numbers fstr
     [\<lparr>label = PStr (ustr ''monto''), dtype = ObjectDtype,
       cells = [PStr (ustr ''$123''), PStr (ustr ''no aplicar''), PStr (ustr ''$456'')]\<rparr>] =
   Inr ([\<lparr>label = PStr (ustr ''monto''), dtype = ObjectDtype,
       cells = [PStr (ustr ''$123''), PStr (ustr ''no aplicar''), PStr (ustr ''$456'')]\<rparr>], [])"
    by code_simp
next
  assume "distinct (map label df) \<and>
    (\<forall>col \<in> set df. \<forall>v \<in> set (cells col). \<forall>n. v = PInt n \<longrightarrow> \<bar>n\<bar> < float_max_bound)"
  then show "\<exists>result. convert_text_columns_to_numbers fstr df = Inr result"
    using convert_frame_returns [of df fstr] by blast
next
  assume a: "convert_text_columns_to_numbers fstr df = Inr (df', report) \<and>
    i < length df \<and> \<not> should_force_numeric (normalize_column_name (label (df ! i)))"
  then obtain b where cc: "convert_column fstr (df ! i) = Inr (df' ! i, b)"
    and b: "b \<longleftrightarrow> label (df ! i) \<in> set report"
    using report_membership [of fstr df df' report i] by blast
  have g: "b \<longleftrightarrow> (dtype (df ! i) = ObjectDtype \<or> dtype (df ! i) = StringDtype) \<and>
          cleaned_non_null fstr (cells (df ! i)) \<noteq> [] \<and>
          (\<forall>s \<in> set (cleaned_non_null fstr (cells (df ! i))). is_numeric_like fstr (PStr s))"
    using convert_column_gate [OF cc] a by auto
  show "(label (df ! i) \<in> set report) =
         ((dtype (df ! i) = ObjectDtype \<or> dtype (df ! i) = StringDtype) \<and>
          cleaned_non_null fstr (cells (df ! i)) \<noteq> [] \<and>
          (\<forall>s \<in> set (cleaned_non_null fstr (cells (df ! i))). is_numeric_like fstr (PStr s)))"
    using b g by simp
  show c: "(df' ! i \<noteq> df ! i) = (label (df ! i) \<in> set report)"
    using convert_column_changed_iff [OF cc] b by simp
  assume "\<exists>s \<in> set (cleaned_non_null fstr (cells (df ! i))). \<not> is_numeric_like fstr (PStr s)"
  then have "\<not> b" using g by blast
  then show "df' ! i = df ! i" "label (df ! i) \<notin> set report" using b c by simp_all
qed

theorem all_or_nothing_gate_witness:
  "convert_text_columns_to_numbers (\<lambda>f. [])
     [\<lparr>label = PStr (ustr ''fecha''), dtype = ObjectDtype, cells = [PStr (ustr ''hoy''), PStr (ustr ''ayer'')]\<rparr>,
      \<lparr>label = PStr (ustr ''monto''), dtype = ObjectDtype, cells = [PStr (ustr ''$123''), PNone]\<rparr>] =
   Inr ([\<lparr>label = PStr (ustr ''fecha''), dtype = ObjectDtype, cells = [PStr (ustr ''hoy''), PStr (ustr ''ayer'')]\<rparr>,
      \<lparr>label = PStr (ustr ''monto''), dtype = NumericDtype, cells = [PFloat (Fin 123), PFloat NaN]\<rparr>],
        [PStr (ustr ''monto'')]) \<and>
   PStr (ustr ''monto'') \<in> set [PStr (ustr ''monto'')] \<and>
   cleaned_non_null (\<lambda>f. []) [PStr (ustr ''$123''), PNone] = [ustr ''$123''] \<and>
   is_numeric_like (\<lambda>f. []) (PStr (ustr ''$123''))"
proof -
  let ?df = "[\<lparr>label = PStr (ustr ''fecha''), dtype = ObjectDtype, cells = [PStr (ustr ''hoy''), PStr (ustr ''ayer'')]\<rparr>,
      \<lparr>label = PStr (ustr ''monto''), dtype = ObjectDtype, cells = [PStr (ustr ''$123''), PNone]\<rparr>]"
  let ?df' = "[\<lparr>label = PStr (ustr ''fecha''), dtype = ObjectDtype, cells = [PStr (ustr ''hoy''), PStr (ustr ''ayer'')]\<rparr>,
      \<lparr>label = PStr (ustr ''monto''), dtype = NumericDtype, cells = [PFloat (Fin 123), PFloat NaN]\<rparr>]"
  have r: "convert_text_columns_to_numbers (\<lambda>f. []) ?df = Inr (?df', [PStr (ustr ''monto'')])"
    by code_simp
  have n: "\<not> should_force_numeric (normalize_column_name (label (?df ! 1)))" by code_simp
  have c: "cleaned_non_null (\<lambda>f. []) [PStr (ustr ''$123''), PNone] = [ustr ''$123'']" by code_simp
  have "(label (?df ! 1) \<in> set [PStr (ustr ''monto'')]) =
         ((dtype (?df ! 1) = ObjectDtype \<or> dtype (?df ! 1) = StringDtype) \<and>
          cleaned_non_null (\<lambda>f. []) (cells (?df ! 1)) \<noteq> [] \<and>
          (\<forall>s \<in> set (cleaned_non_null (\<lambda>f. []) (cells (?df ! 1))). is_numeric_like (\<lambda>f. []) (PStr s)))"
    using all_or_nothing_gate [of "\<lambda>f. []" ?df ?df' "[PStr (ustr ''monto'')]" 1, THEN conjunct1]
      r n by simp
  then have "is_numeric_like (\<lambda>f. []) (PStr (ustr ''$123''))" using c by simp
  then show ?thesis using r c by simp
qed

subsection \<open>Forced conversion of identifier columns\<close>

text \<open>
  C4, as stated, fails: a column \<open>id\<close> that already has a numeric dtype is skipped
  by the first test of the loop, and its label is not in the report.
\<close>

theorem numeric_id_column_not_recorded:
  "should_force_numeric (normalize_column_name (PStr (ustr ''id''))) \<and>
   convert_text_columns_to_numbers (\<lambda>f. [])
     [\<lparr>label = PStr (ustr ''id''), dtype = NumericDtype, cells = [PInt 1, PInt 2]\<rparr>] =
   Inr ([\<lparr>label = PStr (ustr ''id''), dtype = NumericDtype, cells = [PInt 1, PInt 2]\<rparr>], [])"
  by code_simp

text \<open>
  C4, amended. Take a frame on which the call returns and a column that does not
  already have a numeric dtype and whose normalized name contains \<open>id\<close> anywhere.
  Whatever its cells hold, its label is in the report and every cell is replaced by
  its conversion, or by \<open>nan\<close>, the missing value, where the conversion gives
  none. The call returns for every frame with distinct labels that holds no \<open>int\<close> of
  magnitude \<open>2^1024 - 2^970\<close> or more. The column \<open>Operacion ID\<close> with the cells \<open>000123\<close>,
  \<open> 456 \<close> and \<open>None\<close> becomes 123.0, 456.0 and the missing value, and is reported.
\<close>

theorem forced_id_conversion:
  "(convert_text_columns_to_numbers fstr df = Inr (df', report) \<and> i < length df \<and>
    should_force_numeric (normalize_column_name (label (df ! i))) \<and>
    dtype (df ! i) \<noteq> NumericDtype \<longrightarrow>
      label (df ! i) \<in> set report \<and>
      df' ! i = (df ! i)\<lparr>dtype := NumericDtype,
        cells := map (\<lambda>v. case convert_numeric_text fstr v of
                            Inr (Some f) \<Rightarrow> PFloat f | _ \<Rightarrow> PFloat NaN) (cells (df ! i))\<rparr>) \<and>
   (distinct (map label df) \<and>
    (\<forall>col \<in> set df. \<forall>v \<in> set (cells col). \<forall>n. v = PInt n \<longrightarrow> \<bar>n\<bar> < float_max_bound) \<longrightarrow>
      (\<exists>result. convert_text_columns_to_numbers fstr df = Inr result)) \<and>
   (should_force_numeric name = (\<exists>p q. name = p @ ustr ''id'' @ q)) \<and>
   isna (PFloat NaN) \<and>
   convert_text_columns_to_numbers fstr
     [\<lparr>label = PStr (ustr ''Operacion ID''), dtype = ObjectDtype,
       cells = [PStr (ustr ''000123''), PStr (ustr '' 456 ''), PNone]\<rparr>] =
   Inr ([\<lparr>label = PStr (ustr ''Operacion ID''), dtype = NumericDtype,
          cells = [PFloat (Fin 123), PFloat (Fin 456), PFloat NaN]\<rparr>],
        [PStr (ustr ''Operacion ID'')])"
proof (intro conjI impI)
  show "convert_text_columns_to_numbers fstr
     [\<lparr>label = PStr (ustr ''Operacion ID''), dtype = ObjectDtype,
       cells = [PStr (ustr ''000123''), PStr (ustr '' 456 ''), PNone]\<rparr>] =
   Inr ([\<lparr>label = PStr (ustr ''Operacion ID''), dtype = NumericDtype,
          cells = [PFloat (Fin 123), PFloat (Fin 456), PFloat NaN]\<rparr>],
        [PStr (ustr ''Operacion ID'')])"
    by code_simp
  show "isna (PFloat NaN)" by (simp add: isna_def)
  show "should_force_numeric name = (\<exists>p q. name = p @ ustr ''id'' @ q)"
    by (rule should_force_numeric_iff)
next
  assume "distinct (map label df) \<and>
    (\<forall>col \<in> set df. \<forall>v \<in> set (cells col). \<forall>n. v = PInt n \<longrightarrow> \<bar>n\<bar> < float_max_bound)"
  then show "\<exists>result. convert_text_columns_to_numbers fstr df = Inr result"
    using convert_frame_returns [of df fstr] by blast
next
  assume a: "convert_text_columns_to_numbers fstr df = Inr (df', report) \<and> i < length df \<and>
    should_force_numeric (normalize_column_name (label (df ! i))) \<and>
    dtype (df ! i) \<noteq> NumericDtype"
  then obtain b where cc: "convert_column fstr (df ! i) = Inr (df' ! i, b)"
    and b: "b \<longrightarrow> label (df ! i) \<in> set report"
    using report_membership [of fstr df df' report i] by blast
  have "b" using convert_column_gate [OF cc] a by simp
  then show "label (df ! i) \<in> set report" using b by simp
  from \<open>b\<close> cc obtain rs where rs: "map_convert fstr (cells (df ! i)) = Inr rs"
    and eq: "df' ! i = (df ! i)\<lparr>dtype := NumericDtype, cells := to_numeric rs\<rparr>"
    using convert_column_converted [of fstr "df ! i" "df' ! i"] by auto
  show "df' ! i = (df ! i)\<lparr>dtype := NumericDtype,
        cells := map (\<lambda>v. case convert_numeric_text fstr v of
                            Inr (Some f) \<Rightarrow> PFloat f | _ \<Rightarrow> PFloat NaN) (cells (df ! i))\<rparr>"
    using eq to_numeric_cells [OF rs] by simp
qed

theorem forced_id_conversion_witness:
  "convert_text_columns_to_numbers (\<lambda>f. [])
     [\<lparr>label = PStr (ustr ''Cliente Id''), dtype = ObjectDtype,
       cells = [PStr (ustr ''7''), PStr (ustr ''s/n''), PBool True]\<rparr>] =
   Inr ([\<lparr>label = PStr (ustr ''Cliente Id''), dtype = NumericDtype,
          cells = [PFloat (Fin 7), PFloat NaN, PFloat NaN]\<rparr>],
        [PStr (ustr ''Cliente Id'')]) \<and>
   PStr (ustr ''Cliente Id'') \<in> set [PStr (ustr ''Cliente Id'')] \<and>
   should_force_numeric (ustr ''cliente id'')"
proof -
  let ?df = "[\<lparr>label = PStr (ustr ''Cliente Id''), dtype = ObjectDtype,
       cells = [PStr (ustr ''7''), PStr (ustr ''s/n''), PBool True]\<rparr>]"
  let ?df' = "[\<lparr>label = PStr (ustr ''Cliente Id''), dtype = NumericDtype,
          cells = [PFloat (Fin 7), PFloat NaN, PFloat NaN]\<rparr>]"
  have r: "convert_text_columns_to_numbers (\<lambda>f. []) ?df = Inr (?df', [PStr (ustr ''Cliente Id'')])"
    by code_simp
  have f: "should_force_numeric (normalize_column_name (label (?df ! 0)))" by code_simp
  have d: "distinct (map label ?df)" by simp
  have n: "\<forall>col \<in> set ?df. \<forall>v \<in> set (cells col). \<forall>n. v = PInt n \<longrightarrow> \<bar>n\<bar> < float_max_bound"
    by simp
  have p: "\<exists>p q. ustr ''cliente id'' = p @ ustr ''id'' @ q"
  proof (intro exI)
    show "ustr ''cliente id'' = ustr ''cliente '' @ ustr ''id'' @ []" by (simp add: ustr_def)
  qed
  have "label (?df ! 0) \<in> set [PStr (ustr ''Cliente Id'')] \<and>
        should_force_numeric (ustr ''cliente id'')"
    using forced_id_conversion
      [of "\<lambda>f. []" ?df ?df' "[PStr (ustr ''Cliente Id'')]" 0 "ustr ''cliente id''"] r f n p d
    by simp
  then show ?thesis using r by simp
qed

end
